theory Spec2Isabelle
  imports Main "HOL-Library.Word"
begin

section \<open>Strings, hexadecimal text and bytes\<close>

text \<open>
  The client of \<^verbatim>\<open>src/lib/sp108e.ts\<close> builds its frames as hexadecimal text and turns
  them into bytes with \<^verbatim>\<open>Buffer.from(hex, 'hex')\<close>; responses come back as bytes and are
  turned into text with \<^verbatim>\<open>toString('hex')\<close>. Bytes are 8-bit words, text is a list of
  characters.
\<close>

type_synonym byte = "8 word"

text \<open>\<^verbatim>\<open>String.prototype.padEnd(n, c)\<close> and \<^verbatim>\<open>padStart(n, c)\<close> for a one-character
  filler: a string that is already long enough is returned unchanged.\<close>

definition padEnd :: "nat \<Rightarrow> char \<Rightarrow> string \<Rightarrow> string" where
  "padEnd n c s = s @ replicate (n - length s) c"

definition padStart :: "nat \<Rightarrow> char \<Rightarrow> string \<Rightarrow> string" where
  "padStart n c s = replicate (n - length s) c @ s"

text \<open>\<^verbatim>\<open>String.prototype.substring(a, b)\<close> for \<open>a \<le> b\<close>, as every call of the source has
  it: both ends are clamped to the length of the string.\<close>

definition substring :: "nat \<Rightarrow> nat \<Rightarrow> string \<Rightarrow> string" where
  "substring a b s = take (b - a) (drop a s)"

text \<open>The value of a hexadecimal digit, in either case; \<open>None\<close> for any other character.\<close>

definition hexval :: "char \<Rightarrow> nat option" where
  "hexval c =
     (let n = (of_char c :: nat) in
      if 48 \<le> n \<and> n \<le> 57 then Some (n - 48)
      else if 97 \<le> n \<and> n \<le> 102 then Some (n - 87)
      else if 65 \<le> n \<and> n \<le> 70 then Some (n - 55)
      else None)"

definition is_hex :: "char \<Rightarrow> bool" where
  "is_hex c = (hexval c \<noteq> None)"

text \<open>The lower-case digit of a value below 16, as \<^verbatim>\<open>toString(16)\<close> and
  \<^verbatim>\<open>toString('hex')\<close> print it.\<close>

definition hexDigit :: "nat \<Rightarrow> char" where
  "hexDigit n = (if n < 10 then char_of (48 + n) else char_of (87 + n))"

text \<open>\<^verbatim>\<open>Buffer.from(hex, 'hex')\<close>: pairs of digits become bytes; decoding stops at the
  first pair that is not two hexadecimal digits, and a trailing single character is
  dropped.\<close>

fun Buffer_from_hex :: "string \<Rightarrow> byte list" where
  "Buffer_from_hex (h # l # rest) =
     (case (hexval h, hexval l) of
        (Some a, Some b) \<Rightarrow> of_nat (16 * a + b) # Buffer_from_hex rest
      | _ \<Rightarrow> [])"
| "Buffer_from_hex _ = []"

text \<open>\<^verbatim>\<open>buf.toString('hex')\<close>: two lower-case digits per byte.\<close>

fun toString_hex :: "byte list \<Rightarrow> string" where
  "toString_hex [] = []"
| "toString_hex (b # bs) =
     hexDigit (unat b div 16) # hexDigit (unat b mod 16) # toString_hex bs"

text \<open>\<^verbatim>\<open>Number.prototype.toString(16)\<close> on an integer: the digits of the magnitude,
  without padding, after a minus sign when the number is negative.\<close>

function toString16_nat :: "nat \<Rightarrow> string" where
  "toString16_nat n =
     (if n < 16 then [hexDigit n] else toString16_nat (n div 16) @ [hexDigit (n mod 16)])"
  by pat_completeness auto
termination
  by (relation "measure id") auto

declare toString16_nat.simps [simp del]

definition toString16 :: "int \<Rightarrow> string" where
  "toString16 i = (if i < 0 then CHR ''-'' # toString16_nat (nat (- i)) else toString16_nat (nat i))"

section \<open>Command encoding\<close>

definition CMD_GET_STATUS :: string where "CMD_GET_STATUS = ''10''"
definition CMD_PREFIX :: string where "CMD_PREFIX = ''38''"
definition CMD_SUFFIX :: string where "CMD_SUFFIX = ''83''"
definition CMD_TOGGLE :: string where "CMD_TOGGLE = ''aa''"
definition CMD_SET_ANIMATION_MODE :: string where "CMD_SET_ANIMATION_MODE = ''2c''"
definition CMD_SET_COLOR :: string where "CMD_SET_COLOR = ''22''"
definition CMD_SET_DREAM_MODE :: string where "CMD_SET_DREAM_MODE = ''2C''"
definition NO_PARAMETER :: string where "NO_PARAMETER = ''000000''"

text \<open>\<^verbatim>\<open>intToHex\<close>: \<open>None\<close> is \<^verbatim>\<open>undefined\<close>, which \<^verbatim>\<open>??\<close> replaces by 0. The
  argument is an integer; the source neither rounds nor clamps it.\<close>

definition intToHex :: "int option \<Rightarrow> string" where
  "intToHex i = (let v = (case i of None \<Rightarrow> 0 | Some n \<Rightarrow> n) in padStart 2 (CHR ''0'') (toString16 v))"

text \<open>The frame of \<^verbatim>\<open>attemptExecute\<close>:
  \<^verbatim>\<open>Buffer.from(CMD_PREFIX + parameter.padEnd(6, '0') + cmd + CMD_SUFFIX, 'hex')\<close>.\<close>

definition frame_hex :: "string \<Rightarrow> string \<Rightarrow> string" where
  "frame_hex cmd parameter = CMD_PREFIX @ padEnd 6 (CHR ''0'') parameter @ cmd @ CMD_SUFFIX"

definition rawHex :: "string \<Rightarrow> string \<Rightarrow> byte list" where
  "rawHex cmd parameter = Buffer_from_hex (frame_hex cmd parameter)"

section \<open>Status decoding\<close>

text \<open>
  \<^verbatim>\<open>parseInt(s, 16)\<close> on text of at most a few characters: leading white space is
  skipped (the ASCII white space characters; the text decoded here is ASCII), then an
  optional sign, then an optional \<^verbatim>\<open>0x\<close> or \<^verbatim>\<open>0X\<close>; the value is that of the longest run
  of hexadecimal digits that follows, and \<^verbatim>\<open>NaN\<close> (here \<open>None\<close>) when that run is empty.
\<close>

definition isWhiteSpace :: "char \<Rightarrow> bool" where
  "isWhiteSpace c = (let n = (of_char c :: nat) in (9 \<le> n \<and> n \<le> 13) \<or> n = 32)"

fun digits_value :: "nat \<Rightarrow> string \<Rightarrow> nat" where
  "digits_value acc [] = acc"
| "digits_value acc (c # cs) =
     (case hexval c of Some d \<Rightarrow> digits_value (16 * acc + d) cs | None \<Rightarrow> acc)"

definition parseInt16 :: "string \<Rightarrow> int option" where
  "parseInt16 s =
     (let s1 = dropWhile isWhiteSpace s;
          neg = (take 1 s1 = ''-'');
          s2 = (if take 1 s1 = ''-'' \<or> take 1 s1 = ''+'' then drop 1 s1 else s1);
          s3 = (if take 2 s2 = ''0x'' \<or> take 2 s2 = ''0X'' then drop 2 s2 else s2)
      in case s3 of
           [] \<Rightarrow> None
         | c # _ \<Rightarrow>
             if is_hex c then Some ((if neg then - 1 else 1) * int (digits_value 0 s3))
             else None)"

text \<open>
  Constants and functions that the client imports from files outside \<^verbatim>\<open>src/\<close>: the two
  mode constants of \<^verbatim>\<open>lib/animationModes\<close> and the conversion \<^verbatim>\<open>hex.hsv\<close> of the
  \<^verbatim>\<open>color-convert\<close> package, whose result is a triple of rounded numbers. They are
  parameters of the model; \<open>hex_hsv\<close> returns \<open>None\<close> where the library would raise.
\<close>

record hsv =
  hue :: int
  saturation :: int
  hsv_value :: int

record externals =
  UNKNOWN_MODE :: int
  ANIMATION_MODE_STATIC :: int
  hex_hsv :: "string \<Rightarrow> hsv option"

text \<open>
  The interface \<^verbatim>\<open>sp108eStatus\<close>. A field read with \<^verbatim>\<open>parseInt\<close> is \<open>None\<close> when
  JavaScript has \<^verbatim>\<open>NaN\<close>. The three percentage fields are floating-point quotients of
  fields that are present and are not part of the record.
\<close>

record sp108eStatus =
  rawResponse :: string
  on :: bool
  animationMode :: int
  presetEffectMode :: int
  animationSpeed :: "int option"
  brightness :: "int option"
  colorOrder :: "int option"
  ledsPerSegment :: "int option"
  numberOfSegments :: "int option"
  color :: string
  hsv :: hsv
  icType :: "int option"
  recordedPatterns :: "int option"
  whiteBrightness :: "int option"

text \<open>
  The errors a call can end with. \<open>ConnectTimeout\<close>, \<open>UnableToConnect\<close> and
  \<open>ReadTimeout\<close> are the three errors the client creates itself (\<^verbatim>\<open>connect timeout\<close>,
  \<^verbatim>\<open>Unable to establish connection\<close>, \<^verbatim>\<open>send() read timeout\<close>); \<open>SocketError n\<close> is an
  error raised by the socket, the number telling one such error from another;
  \<open>ConversionError\<close> is an error raised by the colour conversion; \<open>NullError\<close> is the
  \<^verbatim>\<open>null\<close> that \<^verbatim>\<open>lastErr\<close> holds before the first failure.
\<close>

datatype error =
    NullError
  | ConnectTimeout
  | UnableToConnect
  | ReadTimeout
  | SocketError nat
  | ConversionError

text \<open>The object literal that \<^verbatim>\<open>getStatus\<close> returns, as a function of the response
  text. A comparison with \<^verbatim>\<open>NaN\<close> is false, so an unreadable mode byte gives
  \<open>UNKNOWN_MODE\<close> in both mode fields.\<close>

definition decodeStatus :: "externals \<Rightarrow> string \<Rightarrow> error + sp108eStatus" where
  "decodeStatus x response =
     (let anyMode = parseInt16 (substring 4 6 response) in
      case hex_hsv x (substring 20 26 response) of
        None \<Rightarrow> Inl ConversionError
      | Some h \<Rightarrow> Inr
          \<lparr> rawResponse = response,
            on = (substring 2 4 response = ''01''),
            animationMode =
              (case anyMode of Some m \<Rightarrow> if m > 180 then m else UNKNOWN_MODE x
               | None \<Rightarrow> UNKNOWN_MODE x),
            presetEffectMode =
              (case anyMode of Some m \<Rightarrow> if m < 180 then m else UNKNOWN_MODE x
               | None \<Rightarrow> UNKNOWN_MODE x),
            animationSpeed = parseInt16 (substring 6 8 response),
            brightness = parseInt16 (substring 8 10 response),
            colorOrder = parseInt16 (substring 10 12 response),
            ledsPerSegment = parseInt16 (substring 12 16 response),
            numberOfSegments = parseInt16 (substring 16 20 response),
            color = substring 20 26 response,
            hsv = h,
            icType = parseInt16 (substring 26 28 response),
            recordedPatterns = parseInt16 (substring 28 30 response),
            whiteBrightness = parseInt16 (substring 30 32 response) \<rparr>)"

section \<open>The connection and one attempt\<close>

text \<open>
  What the network does is given from outside: for each attempt, whether the socket was
  closed or failed since the last operation, how the connect ends, how the write ends and
  how the read ends. \<open>ReadUndefined\<close> is a read that resolves with \<^verbatim>\<open>undefined\<close>.
\<close>

datatype connect_result = Connects | ConnectFails nat | ConnectTimesOut
datatype write_result = Written | WriteFails nat
datatype read_result = ReadBuffer "byte list" | ReadUndefined | ReadFails nat | ReadTimesOut

record attempt_io =
  closed_meanwhile :: bool
  connect_io :: connect_result
  write_io :: write_result
  read_io :: read_result

text \<open>
  The state of the client and its surroundings: the fields \<^verbatim>\<open>_connected\<close> and
  \<^verbatim>\<open>_client\<close> (\<open>client\<close> holds when \<^verbatim>\<open>_client\<close> is defined), the outcomes of the network
  by attempt number, the number of attempts made so far, the frames written to the
  socket, the arguments of \<^verbatim>\<open>this.delay\<close>, the number of calls of \<^verbatim>\<open>this.sleep\<close>, the
  arguments of the calls of \<^verbatim>\<open>send\<close>, and the status objects created so far (an object
  is known by its index).
\<close>

record world =
  connected :: bool
  client :: bool
  env :: "nat \<Rightarrow> attempt_io"
  attempts :: nat
  wire :: "byte list list"
  backoffs :: "nat list"
  pacing :: nat
  calls :: "(string \<times> string \<times> nat) list"
  statuses :: "sp108eStatus list"

definition SEND_MAX_RETRIES :: nat where "SEND_MAX_RETRIES = 3"
definition SEND_BASE_DELAY_MS :: nat where "SEND_BASE_DELAY_MS = 200"

definition delay :: "nat \<Rightarrow> world \<Rightarrow> world" where
  "delay ms w = w\<lparr>backoffs := backoffs w @ [ms]\<rparr>"

definition forceDisconnect :: "world \<Rightarrow> world" where
  "forceDisconnect w = w\<lparr>client := False, connected := False\<rparr>"

text \<open>\<^verbatim>\<open>ensureConnected\<close>. A failed connect runs the socket's \<^verbatim>\<open>error\<close> handler, and a
  connect that times out destroys the socket, whose \<^verbatim>\<open>close\<close> handler runs: both leave
  the two fields cleared.\<close>

definition ensureConnected :: "attempt_io \<Rightarrow> world \<Rightarrow> (error + unit) \<times> world" where
  "ensureConnected io w =
     (if connected w \<and> client w then (Inr (), w)
      else case connect_io io of
             Connects \<Rightarrow> (Inr (), w\<lparr>client := True, connected := True\<rparr>)
           | ConnectFails e \<Rightarrow> (Inl (SocketError e), w\<lparr>connected := False, client := False\<rparr>)
           | ConnectTimesOut \<Rightarrow> (Inl ConnectTimeout, w\<lparr>connected := False, client := False\<rparr>))"

text \<open>\<^verbatim>\<open>attemptExecute\<close>, the inner function of \<^verbatim>\<open>send\<close>. When the socket's \<^verbatim>\<open>close\<close> or
  \<^verbatim>\<open>error\<close> handler has run since the last operation, the two fields are cleared before
  the attempt begins. A frame counts as written when the write succeeds. The read
  timeout disconnects in its timer and again in the \<^verbatim>\<open>catch\<close> block.\<close>

definition attemptExecute :: "string \<Rightarrow> string \<Rightarrow> nat \<Rightarrow> world \<Rightarrow> (error + string) \<times> world" where
  "attemptExecute cmd parameter responseLength w0 =
     (let io = env w0 (attempts w0);
          w1 = w0\<lparr>attempts := Suc (attempts w0)\<rparr>;
          w2 = (if closed_meanwhile io then w1\<lparr>connected := False, client := False\<rparr> else w1)
      in case ensureConnected io w2 of
           (Inl e, w3) \<Rightarrow> (Inl e, w3)
         | (Inr _, w3) \<Rightarrow>
             if \<not> client w3 then (Inl UnableToConnect, w3)
             else
               (case write_io io of
                  WriteFails e \<Rightarrow> (Inl (SocketError e), forceDisconnect w3)
                | Written \<Rightarrow>
                    (let w4 = w3\<lparr>wire := wire w3 @ [rawHex cmd parameter]\<rparr> in
                     if responseLength > 0 then
                       (case read_io io of
                          ReadBuffer responseBuf \<Rightarrow> (Inr (toString_hex responseBuf), w4)
                        | ReadUndefined \<Rightarrow> (Inr [], w4)
                        | ReadFails e \<Rightarrow> (Inl (SocketError e), forceDisconnect w4)
                        | ReadTimesOut \<Rightarrow>
                            (Inl ReadTimeout, forceDisconnect (forceDisconnect w4)))
                     else (Inr [], w4\<lparr>pacing := Suc (pacing w4)\<rparr>))))"

section \<open>Retries\<close>

text \<open>The loop of \<^verbatim>\<open>executeWithRetries\<close>, from a given value of \<^verbatim>\<open>attempt\<close> and of
  \<^verbatim>\<open>lastErr\<close> (\<open>NullError\<close> is the initial \<^verbatim>\<open>null\<close>).\<close>

function executeWithRetries_loop ::
  "string \<Rightarrow> string \<Rightarrow> nat \<Rightarrow> nat \<Rightarrow> error \<Rightarrow> world \<Rightarrow> (error + string) \<times> world" where
  "executeWithRetries_loop cmd parameter responseLength attempt lastErr w =
     (if attempt \<le> SEND_MAX_RETRIES then
        (case attemptExecute cmd parameter responseLength w of
           (Inr r, w1) \<Rightarrow> (Inr r, w1)
         | (Inl err, w1) \<Rightarrow>
             if attempt < SEND_MAX_RETRIES then
               executeWithRetries_loop cmd parameter responseLength (Suc attempt) err
                 (delay (SEND_BASE_DELAY_MS * 2 ^ attempt) w1)
             else (Inl err, w1))
      else (Inl lastErr, w))"
  by pat_completeness auto
termination
  by (relation "measure (\<lambda>(cmd, parameter, responseLength, attempt, lastErr, w).
        Suc SEND_MAX_RETRIES - attempt)") auto

declare executeWithRetries_loop.simps [simp del]

definition executeWithRetries :: "string \<Rightarrow> string \<Rightarrow> nat \<Rightarrow> world \<Rightarrow> (error + string) \<times> world" where
  "executeWithRetries cmd parameter responseLength w =
     executeWithRetries_loop cmd parameter responseLength 0 NullError w"

text \<open>
  \<^verbatim>\<open>send\<close>, called while no other call of \<^verbatim>\<open>send\<close> is pending: the chain
  \<^verbatim>\<open>_sendQueue\<close> is then settled and \<^verbatim>\<open>executeWithRetries\<close> starts at once. The chain
  itself is modelled in the section on the chain of pending sends.
\<close>

definition send :: "string \<Rightarrow> string \<Rightarrow> nat \<Rightarrow> world \<Rightarrow> (error + string) \<times> world" where
  "send cmd parameter responseLength w =
     executeWithRetries cmd parameter responseLength
       (w\<lparr>calls := calls w @ [(cmd, parameter, responseLength)]\<rparr>)"

section \<open>Operations of the client\<close>

definition toggleOnOff :: "world \<Rightarrow> (error + string) \<times> world" where
  "toggleOnOff w = send CMD_TOGGLE NO_PARAMETER 17 w"

text \<open>\<^verbatim>\<open>getStatus\<close> returns a new object: the result is the index of the object
  added to \<open>statuses\<close>.\<close>

definition getStatus :: "externals \<Rightarrow> world \<Rightarrow> (error + nat) \<times> world" where
  "getStatus x w =
     (case send CMD_GET_STATUS NO_PARAMETER 17 w of
        (Inl e, w1) \<Rightarrow> (Inl e, w1)
      | (Inr response, w1) \<Rightarrow>
          (case decodeStatus x response of
             Inl e \<Rightarrow> (Inl e, w1)
           | Inr st \<Rightarrow> (Inr (length (statuses w1)), w1\<lparr>statuses := statuses w1 @ [st]\<rparr>)))"

text \<open>The methods \<^verbatim>\<open>off\<close> and \<^verbatim>\<open>on\<close> of the class \<^verbatim>\<open>sp108e\<close>; the result \<open>None\<close> is
  \<^verbatim>\<open>undefined\<close>, returned when no toggle is sent.\<close>

definition sp108e_off :: "externals \<Rightarrow> world \<Rightarrow> (error + string option) \<times> world" where
  "sp108e_off x w =
     (case getStatus x w of
        (Inl e, w1) \<Rightarrow> (Inl e, w1)
      | (Inr status, w1) \<Rightarrow>
          if on (statuses w1 ! status) then
            (case toggleOnOff w1 of
               (Inl e, w2) \<Rightarrow> (Inl e, w2)
             | (Inr r, w2) \<Rightarrow> (Inr (Some r), w2))
          else (Inr None, w1))"

definition sp108e_on :: "externals \<Rightarrow> world \<Rightarrow> (error + string option) \<times> world" where
  "sp108e_on x w =
     (case getStatus x w of
        (Inl e, w1) \<Rightarrow> (Inl e, w1)
      | (Inr status, w1) \<Rightarrow>
          if \<not> on (statuses w1 ! status) then
            (case toggleOnOff w1 of
               (Inl e, w2) \<Rightarrow> (Inl e, w2)
             | (Inr r, w2) \<Rightarrow> (Inr (Some r), w2))
          else (Inr None, w1))"

definition setColor :: "externals \<Rightarrow> string \<Rightarrow> world \<Rightarrow> (error + string) \<times> world" where
  "setColor x hexColor w =
     (case getStatus x w of
        (Inl e, w1) \<Rightarrow> (Inl e, w1)
      | (Inr status, w1) \<Rightarrow>
          if animationMode (statuses w1 ! status) = 0 then
            (case send CMD_SET_ANIMATION_MODE (intToHex (Some (ANIMATION_MODE_STATIC x))) 0 w1 of
               (Inl e, w2) \<Rightarrow> (Inl e, w2)
             | (Inr _, w2) \<Rightarrow> send CMD_SET_COLOR hexColor 0 w2)
          else send CMD_SET_COLOR hexColor 0 w1)"

definition setAnimationMode :: "int \<Rightarrow> world \<Rightarrow> (error + string) \<times> world" where
  "setAnimationMode mode w = send CMD_SET_ANIMATION_MODE (intToHex (Some mode)) 0 w"

definition setPresetMode :: "int \<Rightarrow> world \<Rightarrow> (error + string) \<times> world" where
  "setPresetMode presetMode w =
     (let truncated = min (max presetMode 0) 179
      in send CMD_SET_DREAM_MODE (intToHex (Some truncated)) 0 w)"

section \<open>The accessory's cached status\<close>

text \<open>
  The fields of \<^verbatim>\<open>Sp108ePlatformAccessory\<close> that \<^verbatim>\<open>setPresetModeOn\<close> reads and writes.
  \<open>deviceStatus\<close> refers to a status object by its index, and is \<open>None\<close> while the field
  is still \<^verbatim>\<open>undefined\<close>.
\<close>

record accessory =
  deviceStatus :: "nat option"
  presetOn :: bool
  presetEffectNumber :: int

datatype hap_error = SERVICE_COMMUNICATION_FAILURE

text \<open>
  \<^verbatim>\<open>setPresetModeOn\<close> of \<^verbatim>\<open>platformAccessory.ts\<close>. Reading a field of an undefined
  \<open>deviceStatus\<close> raises inside the \<^verbatim>\<open>try\<close> block, and every error raised there is
  replaced by the one error of the \<^verbatim>\<open>catch\<close> block. The last call to the device is not
  awaited: its result is dropped, and its effect on the world is what the command does
  once it runs.
\<close>

definition setPresetModeOn ::
  "externals \<Rightarrow> bool \<Rightarrow> accessory \<Rightarrow> world \<Rightarrow> (hap_error + unit) \<times> accessory \<times> world" where
  "setPresetModeOn x v acc w =
     (case deviceStatus acc of
        None \<Rightarrow> (Inl SERVICE_COMMUNICATION_FAILURE, acc, w)
      | Some ds \<Rightarrow>
          if v \<and> presetEffectMode (statuses w ! ds) \<noteq> UNKNOWN_MODE x \<and> presetOn acc
          then (Inr (), acc, w)
          else if \<not> v \<and> presetEffectMode (statuses w ! ds) = UNKNOWN_MODE x \<and> \<not> presetOn acc
          then (Inr (), acc, w)
          else
            (case (if \<not> on (statuses w ! ds) then sp108e_on x w else (Inr None, w)) of
               (Inl e, w1) \<Rightarrow> (Inl SERVICE_COMMUNICATION_FAILURE, acc, w1)
             | (Inr _, w1) \<Rightarrow>
                 (let acc1 = acc\<lparr>presetOn := v\<rparr> in
                  if presetOn acc1 then
                    (let currentPresetMode =
                           (if presetEffectMode (statuses w1 ! ds) \<noteq> UNKNOWN_MODE x
                            then presetEffectMode (statuses w1 ! ds)
                            else presetEffectNumber acc1);
                         acc2 = acc1\<lparr>presetEffectNumber := currentPresetMode\<rparr>;
                         w2 = w1\<lparr>statuses := (statuses w1)
                                [ds := (statuses w1 ! ds)\<lparr>presetEffectMode := currentPresetMode\<rparr>]\<rparr>
                     in (Inr (), acc2, snd (setPresetMode (presetEffectNumber acc2) w2)))
                  else
                    (Inr (), acc1, snd (setAnimationMode (ANIMATION_MODE_STATIC x) w1)))))"

section \<open>The chain of pending sends\<close>

text \<open>
  The last three statements of \<^verbatim>\<open>send\<close> are
  \<^verbatim>\<open>const queued = this._sendQueue.then(() => executeWithRetries());\<close>
  \<^verbatim>\<open>this._sendQueue = queued.catch((err) => { ... });\<close>
  \<^verbatim>\<open>return queued;\<close>
  and \<^verbatim>\<open>_sendQueue\<close> starts as \<^verbatim>\<open>Promise.resolve()\<close>. Each call therefore adds two
  promises: \<open>queued\<close>, which runs the unit of work once the previous value of
  \<^verbatim>\<open>_sendQueue\<close> is fulfilled and is skipped (rejected without running) if that one is
  rejected, and \<open>tail\<close>, the new value of \<^verbatim>\<open>_sendQueue\<close>, which is fulfilled once
  \<open>queued\<close> is settled either way, since its handler returns normally.

  A link of the chain is the pair of promises of one call. \<open>Running\<close> is a pending
  \<open>queued\<close> promise whose callback has been entered: its unit of work is in flight.
\<close>

datatype promise = Pending | Running | Fulfilled | Rejected

record 'u link =
  work :: 'u
  queued :: promise
  tail :: promise

text \<open>\<open>links\<close> are the calls of \<^verbatim>\<open>send\<close> in the order they were made; \<open>started\<close> lists
  the units of work in the order their execution began.\<close>

record 'u chain =
  links :: "'u link list"
  started :: "'u list"

definition initial_chain :: "'u chain" where
  "initial_chain = \<lparr>links = [], started = []\<rparr>"

text \<open>The value of \<^verbatim>\<open>_sendQueue\<close> that link \<open>i\<close> was chained to.\<close>

definition previous_tail :: "'u link list \<Rightarrow> nat \<Rightarrow> promise" where
  "previous_tail ls i = (if i = 0 then Fulfilled else tail (ls ! (i - 1)))"

definition settled :: "promise \<Rightarrow> bool" where
  "settled p = (p = Fulfilled \<or> p = Rejected)"

text \<open>
  What can happen: a call of \<^verbatim>\<open>send\<close>; the reaction of a \<open>queued\<close> promise to the
  promise it was chained to; the end of a unit of work in flight, with success or
  failure; the reaction of a \<open>tail\<close> promise to its \<open>queued\<close> promise. An event that
  is not possible in a state leaves it unchanged.
\<close>

datatype 'u event =
    Send 'u
  | ReactQueued nat
  | Finish nat bool
  | ReactTail nat

fun step :: "'u chain \<Rightarrow> 'u event \<Rightarrow> 'u chain" where
  "step c (Send u) =
     c\<lparr>links := links c @ [\<lparr>work = u, queued = Pending, tail = Pending\<rparr>]\<rparr>"
| "step c (ReactQueued i) =
     (if i < length (links c) \<and> queued (links c ! i) = Pending then
        (case previous_tail (links c) i of
           Fulfilled \<Rightarrow>
             c\<lparr>links := (links c)[i := (links c ! i)\<lparr>queued := Running\<rparr>],
               started := started c @ [work (links c ! i)]\<rparr>
         | Rejected \<Rightarrow> c\<lparr>links := (links c)[i := (links c ! i)\<lparr>queued := Rejected\<rparr>]\<rparr>
         | _ \<Rightarrow> c)
      else c)"
| "step c (Finish i ok) =
     (if i < length (links c) \<and> queued (links c ! i) = Running then
        c\<lparr>links := (links c)[i := (links c ! i)\<lparr>queued := (if ok then Fulfilled else Rejected)\<rparr>]\<rparr>
      else c)"
| "step c (ReactTail i) =
     (if i < length (links c) \<and> tail (links c ! i) = Pending \<and> settled (queued (links c ! i)) then
        c\<lparr>links := (links c)[i := (links c ! i)\<lparr>tail := Fulfilled\<rparr>]\<rparr>
      else c)"

definition run :: "'u event list \<Rightarrow> 'u chain" where
  "run evs = foldl step initial_chain evs"

definition in_flight :: "'u chain \<Rightarrow> nat \<Rightarrow> bool" where
  "in_flight c i = (i < length (links c) \<and> queued (links c ! i) = Running)"

text \<open>The units of work handed to \<^verbatim>\<open>send\<close> by a sequence of events, in order.\<close>

fun sent :: "'u event list \<Rightarrow> 'u list" where
  "sent [] = []"
| "sent (Send u # evs) = u # sent evs"
| "sent (_ # evs) = sent evs"

text \<open>
  The turn of the next unit of work: the unit in flight, if there is one, ends with the
  given result, the \<open>tail\<close> promise of its link reacts, and the \<open>queued\<close> promise of the
  first link that has not started reacts. \<open>turns\<close> takes one turn for each result of a
  list.
\<close>

definition turn :: "'u chain \<Rightarrow> bool \<Rightarrow> 'u chain" where
  "turn c ok =
     (let j = length (started c)
      in foldl step c [Finish (j - 1) ok, ReactTail (j - 1), ReactQueued j])"

definition turns :: "'u chain \<Rightarrow> bool list \<Rightarrow> 'u chain" where
  "turns c oks = foldl turn c oks"

text \<open>
  What holds of the chain at all times (shown below): a \<open>tail\<close> promise is pending or
  fulfilled, and fulfilled only once its \<open>queued\<close> promise is settled; a \<open>queued\<close>
  promise that is no longer pending has every earlier \<open>tail\<close> fulfilled; and the links
  whose \<open>queued\<close> promise is no longer pending are exactly the first ones, as many as
  units have started, in the order of \<open>started\<close>.
\<close>

definition chain_ok :: "'u chain \<Rightarrow> bool" where
  "chain_ok c =
     ((\<forall>i < length (links c).
         (tail (links c ! i) = Pending \<or> tail (links c ! i) = Fulfilled)
       \<and> (tail (links c ! i) = Fulfilled \<longrightarrow> settled (queued (links c ! i)))
       \<and> (queued (links c ! i) \<noteq> Pending \<longleftrightarrow> i < length (started c)))
      \<and> (\<forall>j < length (links c). \<forall>i < j.
            queued (links c ! j) \<noteq> Pending \<longrightarrow> tail (links c ! i) = Fulfilled)
      \<and> length (started c) \<le> length (links c)
      \<and> started c = map work (take (length (started c)) (links c)))"

section \<open>Data for examples\<close>

text \<open>
  A stand-in for the colour conversion: it accepts exactly the colours of six
  hexadecimal digits, for which it returns black, and raises on anything else.
\<close>

definition example_hex_hsv :: "string \<Rightarrow> hsv option" where
  "example_hex_hsv s =
     (if length s = 6 \<and> list_all is_hex s then Some \<lparr>hue = 0, saturation = 0, hsv_value = 0\<rparr>
      else None)"

definition example_externals :: externals where
  "example_externals =
     \<lparr>UNKNOWN_MODE = - 1, ANIMATION_MODE_STATIC = 211, hex_hsv = example_hex_hsv\<rparr>"

text \<open>A status response of 17 bytes with a given power byte and mode byte.\<close>

definition example_status :: "byte \<Rightarrow> byte \<Rightarrow> byte list" where
  "example_status pw md =
     [0x38, pw, md, 0x96, 0x0a, 0x02, 0x00, 0x3c, 0x00, 0x01, 0xff, 0x00, 0x00, 0x03,
      0x00, 0x80, 0x83]"

text \<open>An attempt in which connecting and writing succeed and the read ends as given; a
  network that treats every attempt so; the client as its constructor leaves it.\<close>

definition example_io :: "read_result \<Rightarrow> attempt_io" where
  "example_io rd =
     \<lparr>closed_meanwhile = False, connect_io = Connects, write_io = Written, read_io = rd\<rparr>"

definition steady_network :: "read_result \<Rightarrow> nat \<Rightarrow> attempt_io" where
  "steady_network rd n = example_io rd"

definition initial_world :: "(nat \<Rightarrow> attempt_io) \<Rightarrow> world" where
  "initial_world e =
     \<lparr>connected = False, client = False, env = e, attempts = 0, wire = [], backoffs = [],
      pacing = 0, calls = [], statuses = []\<rparr>"

section \<open>Hexadecimal text: basic facts\<close>

lemma hexval_hexDigit: "n < 16 \<Longrightarrow> hexval (hexDigit n) = Some n"
  by (simp add: hexval_def hexDigit_def Let_def)

lemma hexval_zero: "hexval (CHR ''0'') = Some 0"
  by (simp add: hexval_def)

lemma hexDigit_0: "hexDigit 0 = CHR ''0''"
  by code_simp

lemma Buffer_from_hex_append:
  "list_all is_hex a \<Longrightarrow> even (length a) \<Longrightarrow>
   Buffer_from_hex (a @ b) = Buffer_from_hex a @ Buffer_from_hex b"
proof (induction a rule: Buffer_from_hex.induct)
  case (1 h l rest)
  then show ?case by (auto simp: is_hex_def)
qed simp_all

lemma length_Buffer_from_hex:
  "list_all is_hex a \<Longrightarrow> even (length a) \<Longrightarrow> length (Buffer_from_hex a) = length a div 2"
proof (induction a rule: Buffer_from_hex.induct)
  case (1 h l rest)
  then show ?case by (auto simp: is_hex_def)
qed simp_all

lemma Buffer_from_hex_zeros:
  "Buffer_from_hex (replicate (2 * k) (CHR ''0'')) = replicate k 0"
  by (induction k) (simp_all add: hexval_zero)

lemma toString16_nat_small: "n < 16 \<Longrightarrow> toString16_nat n = [hexDigit n]"
  by (simp add: toString16_nat.simps)

lemma toString16_nat_byte:
  "16 \<le> n \<Longrightarrow> n < 256 \<Longrightarrow> toString16_nat n = [hexDigit (n div 16), hexDigit (n mod 16)]"
  by (subst toString16_nat.simps) (simp add: toString16_nat_small less_mult_imp_div_less)

section \<open>Frames\<close>

text \<open>
  Claim C4. For a command of one byte and a parameter of at most three bytes, both
  written as hexadecimal text, the frame is the prefix byte 0x38, the bytes of the
  parameter, zero bytes up to three parameter bytes in all, the command byte and the
  suffix byte 0x83: six bytes. The frame is a function of the command and the parameter
  alone, so equal arguments give equal frames.
\<close>

theorem frame_layout:
  assumes "list_all is_hex parameter" "even (length parameter)" "length parameter \<le> 6"
    and "list_all is_hex cmd" "length cmd = 2"
  shows "rawHex cmd parameter =
           [0x38] @ Buffer_from_hex parameter @ replicate (3 - length parameter div 2) 0
             @ Buffer_from_hex cmd @ [0x83]
         \<and> length (Buffer_from_hex parameter) = length parameter div 2
         \<and> length (Buffer_from_hex cmd) = 1
         \<and> length (rawHex cmd parameter) = 6"
proof -
  obtain k where k: "6 - length parameter = 2 * k" "k = 3 - length parameter div 2"
    using assms(2,3) by (auto elim!: evenE)
  have pre: "Buffer_from_hex CMD_PREFIX = [0x38]" "Buffer_from_hex CMD_SUFFIX = [0x83]"
    by (simp_all add: CMD_PREFIX_def CMD_SUFFIX_def hexval_def)
  have hp: "list_all is_hex CMD_PREFIX" "even (length CMD_PREFIX)"
    by (simp_all add: CMD_PREFIX_def is_hex_def hexval_def)
  have hz: "list_all is_hex (replicate (2 * k) (CHR ''0''))"
    by (simp add: list_all_iff is_hex_def hexval_zero)
  have lc: "length (Buffer_from_hex cmd) = 1"
    using assms(4,5) by (simp add: length_Buffer_from_hex)
  have lp: "length (Buffer_from_hex parameter) = length parameter div 2"
    using assms(1,2) by (rule length_Buffer_from_hex)
  have eq: "rawHex cmd parameter =
      [0x38] @ Buffer_from_hex parameter @ replicate k 0 @ Buffer_from_hex cmd @ [0x83]"
    unfolding rawHex_def frame_hex_def padEnd_def k(1)
    using assms hp hz
    by (simp add: Buffer_from_hex_append pre Buffer_from_hex_zeros)
  from assms(3) lp lc k show ?thesis
    unfolding eq by auto
qed

theorem frame_layout_example:
  "list_all is_hex ''ff67'' \<and> even (length ''ff67'') \<and> length ''ff67'' \<le> 6
   \<and> list_all is_hex CMD_SET_COLOR \<and> length CMD_SET_COLOR = 2
   \<and> rawHex CMD_SET_COLOR ''ff67'' = [0x38, 0xff, 0x67, 0x00, 0x22, 0x83]
   \<and> length (rawHex CMD_SET_COLOR ''ff67'') = 6"
proof -
  have h: "list_all is_hex ''ff67''" "even (length ''ff67'')" "length ''ff67'' \<le> 6"
    "list_all is_hex CMD_SET_COLOR" "length CMD_SET_COLOR = 2"
    by (simp_all add: is_hex_def hexval_def CMD_SET_COLOR_def)
  have b: "Buffer_from_hex ''ff67'' = [0xff, 0x67]" "Buffer_from_hex CMD_SET_COLOR = [0x22]"
    by (simp_all add: hexval_def CMD_SET_COLOR_def)
  from frame_layout [OF h] h show ?thesis
    by (simp add: b del: Buffer_from_hex.simps)
qed

section \<open>Integer parameters\<close>

text \<open>
  Claim C9, as the source has it. \<^verbatim>\<open>intToHex\<close> does not clamp: a value above 255 keeps
  all its digits, so 256 becomes the three characters \<^verbatim>\<open>100\<close>.
\<close>

theorem intToHex_256_three_digits:
  "intToHex (Some 256) = ''100'' \<and> length (intToHex (Some 256)) \<noteq> 2"
  by code_simp

text \<open>
  Claim C9, amended. For an integer from 0 to 255, \<^verbatim>\<open>intToHex\<close> gives exactly two
  lower-case hexadecimal digits, the first of them the digit 0 when the value is below
  16, and the two digits read back as the byte of that value.
\<close>

theorem intToHex_byte:
  assumes "0 \<le> n" "n \<le> 255"
  shows "intToHex (Some n) = [hexDigit (nat n div 16), hexDigit (nat n mod 16)]
         \<and> length (intToHex (Some n)) = 2
         \<and> (n < 16 \<longrightarrow> hd (intToHex (Some n)) = CHR ''0'')
         \<and> Buffer_from_hex (intToHex (Some n)) = [of_int n]"
proof -
  have eq: "intToHex (Some n) = [hexDigit (nat n div 16), hexDigit (nat n mod 16)]"
  proof (cases "nat n < 16")
    case True
    with assms show ?thesis
      by (simp add: intToHex_def toString16_def toString16_nat_small padStart_def hexDigit_0)
  next
    case False
    with assms show ?thesis
      by (simp add: intToHex_def toString16_def toString16_nat_byte padStart_def)
  qed
  have lt: "nat n div 16 < 16" using assms by (simp add: less_mult_imp_div_less)
  have "(of_nat (16 * (nat n div 16) + nat n mod 16) :: byte) = of_int n"
    using assms by simp
  with lt have "Buffer_from_hex (intToHex (Some n)) = [of_int n]"
    unfolding eq by (simp add: hexval_hexDigit del: of_nat_add of_nat_mult)
  moreover have "n < 16 \<longrightarrow> hd (intToHex (Some n)) = CHR ''0''"
    unfolding eq using assms by (simp add: hexDigit_0)
  ultimately show ?thesis using eq by simp
qed

theorem intToHex_byte_example:
  "(0::int) \<le> 10 \<and> (10::int) \<le> 255 \<and> intToHex (Some 10) = ''0a''
   \<and> length (intToHex (Some 10)) = 2 \<and> hd (intToHex (Some 10)) = CHR ''0''
   \<and> Buffer_from_hex (intToHex (Some 10)) = [10]"
proof -
  have h: "(0::int) \<le> 10" "(10::int) \<le> 255" by simp_all
  have d: "hexDigit 10 = CHR ''a''"
    by code_simp
  from intToHex_byte [OF h] show ?thesis
    by (simp add: d hexDigit_0 hexval_def)
qed

section \<open>Reading a status response\<close>

lemma of_char_hexDigit:
  "n < 16 \<Longrightarrow> (of_char (hexDigit n) :: nat) = (if n < 10 then 48 + n else 87 + n)"
  by (simp add: hexDigit_def)

lemma hexDigit_plain:
  assumes "n < 16"
  shows "\<not> isWhiteSpace (hexDigit n)" "hexDigit n \<noteq> CHR ''-''" "hexDigit n \<noteq> CHR ''+''"
    "hexDigit n \<noteq> CHR ''x''" "hexDigit n \<noteq> CHR ''X''" "is_hex (hexDigit n)"
proof -
  show "\<not> isWhiteSpace (hexDigit n)"
    using assms by (simp add: isWhiteSpace_def of_char_hexDigit Let_def)
  have ne: "hexDigit n \<noteq> c" if "(of_char c :: nat) < 48 \<or> (of_char c :: nat) = 88 \<or> (of_char c :: nat) = 120" for c
  proof
    assume "hexDigit n = c"
    then have "(of_char (hexDigit n) :: nat) = of_char c" by simp
    with that assms show False by (simp add: of_char_hexDigit split: if_splits)
  qed
  show "hexDigit n \<noteq> CHR ''-''" "hexDigit n \<noteq> CHR ''+''" "hexDigit n \<noteq> CHR ''x''" "hexDigit n \<noteq> CHR ''X''"
    by (rule ne, simp)+
  show "is_hex (hexDigit n)"
    using assms by (simp add: is_hex_def hexval_hexDigit)
qed

lemma parseInt16_hexDigits:
  assumes "a < 16" "b < 16"
  shows "parseInt16 (hexDigit a # hexDigit b # rest)
           = Some (int (digits_value 0 (hexDigit a # hexDigit b # rest)))"
  using hexDigit_plain [OF assms(1)] hexDigit_plain [OF assms(2)]
  by (simp add: parseInt16_def)

lemma parseInt16_empty: "parseInt16 [] = None"
  by (simp add: parseInt16_def)

lemma nibbles: "unat (b :: byte) div 16 < 16" "unat b mod 16 < 16"
  using unsigned_less [of b, where ?'a = nat] by (simp_all add: less_mult_imp_div_less)

lemma parseInt16_byte: "parseInt16 (toString_hex [b]) = Some (uint b)"
proof -
  have "int (16 * (unat b div 16) + unat b mod 16) = uint b"
    by (simp del: of_nat_add of_nat_mult)
  then show ?thesis
    by (simp add: parseInt16_hexDigits nibbles hexval_hexDigit del: of_nat_add of_nat_mult)
qed

lemma parseInt16_two_bytes:
  "parseInt16 (toString_hex [b1, b2]) = Some (256 * uint b1 + uint b2)"
proof -
  have "int (16 * (16 * (16 * (unat b1 div 16) + unat b1 mod 16) + unat b2 div 16) + unat b2 mod 16)
        = 256 * uint b1 + uint b2"
  proof -
    have e: "16 * (16 * (16 * (unat b1 div 16) + unat b1 mod 16) + unat b2 div 16) + unat b2 mod 16
          = 256 * unat b1 + unat b2"
      by simp
    have "int (256 * unat b1 + unat b2) = 256 * uint b1 + uint b2"
      by simp
    then show ?thesis unfolding e .
  qed
  then show ?thesis
    by (simp add: parseInt16_hexDigits nibbles hexval_hexDigit del: of_nat_add of_nat_mult)
qed

lemma drop_toString_hex: "drop (2 * i) (toString_hex bs) = toString_hex (drop i bs)"
proof (induction bs arbitrary: i)
  case Nil
  show ?case by simp
next
  case (Cons b bs)
  show ?case by (cases i) (simp_all add: Cons.IH)
qed

lemma take_toString_hex: "take (2 * k) (toString_hex bs) = toString_hex (take k bs)"
proof (induction bs arbitrary: k)
  case Nil
  show ?case by simp
next
  case (Cons b bs)
  show ?case by (cases k) (simp_all add: Cons.IH)
qed

lemma substring_toString_hex:
  "substring (2 * i) (2 * i + 2 * k) (toString_hex bs) = toString_hex (take k (drop i bs))"
  by (simp add: substring_def drop_toString_hex take_toString_hex)

lemma Buffer_from_hex_toString_hex: "Buffer_from_hex (toString_hex bs) = bs"
proof (induction bs)
  case Nil
  show ?case by simp
next
  case (Cons b bs)
  have "(of_nat (16 * (unat b div 16) + unat b mod 16) :: byte) = b"
    by simp
  with Cons show ?case
    by (simp add: hexval_hexDigit nibbles del: of_nat_add of_nat_mult)
qed

lemma toString_hex_one: "toString_hex [b] = ''01'' \<longleftrightarrow> b = 1"
proof
  assume "toString_hex [b] = ''01''"
  then have "Buffer_from_hex (toString_hex [b]) = Buffer_from_hex ''01''" by simp
  then show "b = 1"
    unfolding Buffer_from_hex_toString_hex by (simp add: hexval_def)
next
  have "toString_hex [1 :: byte] = ''01''" by code_simp
  moreover assume "b = 1"
  ultimately show "toString_hex [b] = ''01''" by simp
qed


lemma substring_byte:
  assumes "i < length bs"
  shows "substring (2 * i) (2 * i + 2) (toString_hex bs) = toString_hex [bs ! i]"
proof -
  have "take 1 (drop i bs) = [bs ! i]"
    using assms by (simp add: take_Suc_conv_app_nth)
  with substring_toString_hex [of i 1 bs] show ?thesis
    by simp
qed

lemma substring_two_bytes:
  assumes "Suc i < length bs"
  shows "substring (2 * i) (2 * i + 4) (toString_hex bs) = toString_hex [bs ! i, bs ! Suc i]"
proof -
  have "take 2 (drop i bs) = [bs ! i, bs ! Suc i]"
    using assms by (simp add: numeral_2_eq_2 take_Suc_conv_app_nth)
  with substring_toString_hex [of i 2 bs] show ?thesis
    by simp
qed

lemma decodeStatus_bytes:
  assumes len: "16 \<le> length bs"
    and col: "hex_hsv x (toString_hex (take 3 (drop 10 bs))) = Some h"
  shows "decodeStatus x (toString_hex bs) = Inr
          \<lparr> rawResponse = toString_hex bs,
            on = (bs ! 1 = 1),
            animationMode = (if uint (bs ! 2) > 180 then uint (bs ! 2) else UNKNOWN_MODE x),
            presetEffectMode = (if uint (bs ! 2) < 180 then uint (bs ! 2) else UNKNOWN_MODE x),
            animationSpeed = Some (uint (bs ! 3)),
            brightness = Some (uint (bs ! 4)),
            colorOrder = Some (uint (bs ! 5)),
            ledsPerSegment = Some (256 * uint (bs ! 6) + uint (bs ! 7)),
            numberOfSegments = Some (256 * uint (bs ! 8) + uint (bs ! 9)),
            color = toString_hex (take 3 (drop 10 bs)),
            hsv = h,
            icType = Some (uint (bs ! 13)),
            recordedPatterns = Some (uint (bs ! 14)),
            whiteBrightness = Some (uint (bs ! 15)) \<rparr>"
proof -
  let ?r = "toString_hex bs"
  have s1: "substring 2 4 ?r = toString_hex [bs ! 1]"
    using substring_byte [of 1 bs] len by simp
  have s2: "substring 4 6 ?r = toString_hex [bs ! 2]"
    using substring_byte [of 2 bs] len by simp
  have s3: "substring 6 8 ?r = toString_hex [bs ! 3]"
    using substring_byte [of 3 bs] len by simp
  have s4: "substring 8 10 ?r = toString_hex [bs ! 4]"
    using substring_byte [of 4 bs] len by simp
  have s5: "substring 10 12 ?r = toString_hex [bs ! 5]"
    using substring_byte [of 5 bs] len by simp
  have s6: "substring 12 16 ?r = toString_hex [bs ! 6, bs ! 7]"
    using substring_two_bytes [of 6 bs] len by simp
  have s8: "substring 16 20 ?r = toString_hex [bs ! 8, bs ! 9]"
    using substring_two_bytes [of 8 bs] len by simp
  have s10: "substring 20 26 ?r = toString_hex (take 3 (drop 10 bs))"
    using substring_toString_hex [of 10 3 bs] by simp
  have s13: "substring 26 28 ?r = toString_hex [bs ! 13]"
    using substring_byte [of 13 bs] len by simp
  have s14: "substring 28 30 ?r = toString_hex [bs ! 14]"
    using substring_byte [of 14 bs] len by simp
  have s15: "substring 30 32 ?r = toString_hex [bs ! 15]"
    using substring_byte [of 15 bs] len by simp
  show ?thesis
    unfolding decodeStatus_def s1 s2 s3 s4 s5 s6 s8 s10 s13 s14 s15 col
      parseInt16_byte parseInt16_two_bytes toString_hex_one
    by (simp add: Let_def)
qed

text \<open>
  Claim C2, as the source has it. A mode byte of 180 is neither above 180 nor below it:
  it is read into neither field, and both fields are the sentinel.
\<close>

theorem mode_byte_180_in_neither_field:
  "decodeStatus example_externals (toString_hex (example_status 1 180)) = Inr
     \<lparr> rawResponse = ''3801b4960a02003c0001ff000003008083'', on = True,
       animationMode = - 1, presetEffectMode = - 1,
       animationSpeed = Some 150, brightness = Some 10, colorOrder = Some 2,
       ledsPerSegment = Some 60, numberOfSegments = Some 1, color = ''ff0000'',
       hsv = \<lparr>hue = 0, saturation = 0, hsv_value = 0\<rparr>, icType = Some 3,
       recordedPatterns = Some 0, whiteBrightness = Some 128 \<rparr>
   \<and> UNKNOWN_MODE example_externals = - 1"
  by code_simp

text \<open>
  Claim C2, amended. In a decoded status the mode byte \<open>b\<close> is the value of
  \<open>animationMode\<close> when \<open>b\<close> exceeds 180 and the value of \<open>presetEffectMode\<close> when \<open>b\<close> is
  below 180, the other field being \<open>UNKNOWN_MODE\<close>; when \<open>b\<close> is 180 both fields are
  \<open>UNKNOWN_MODE\<close>.
\<close>

theorem mode_classification:
  assumes "3 \<le> length bs" and "decodeStatus x (toString_hex bs) = Inr st"
  shows "(180 < uint (bs ! 2) \<longrightarrow>
            animationMode st = uint (bs ! 2) \<and> presetEffectMode st = UNKNOWN_MODE x)
       \<and> (uint (bs ! 2) < 180 \<longrightarrow>
            presetEffectMode st = uint (bs ! 2) \<and> animationMode st = UNKNOWN_MODE x)
       \<and> (uint (bs ! 2) = 180 \<longrightarrow>
            animationMode st = UNKNOWN_MODE x \<and> presetEffectMode st = UNKNOWN_MODE x)"
proof -
  have s2: "substring 4 6 (toString_hex bs) = toString_hex [bs ! 2]"
    using substring_byte [of 2 bs] assms(1) by simp
  from assms(2) show ?thesis
    unfolding decodeStatus_def s2 parseInt16_byte
    by (auto simp: Let_def split: option.splits)
qed

lemma example_status_facts:
  "3 \<le> length (example_status p m)" "example_status p m ! 2 = m"
  "16 \<le> length (example_status p m)" "length (example_status p m) = 17"
  "example_status p m ! 1 = p"
  by (simp_all add: example_status_def)

lemma example_status_color:
  "toString_hex (take 3 (drop 10 (example_status p m))) = ''ff0000''"
proof -
  have "toString_hex [0xff, 0x00, 0x00] = ''ff0000''"
    by code_simp
  then show ?thesis
    by (simp add: example_status_def)
qed

lemma example_hex_hsv_color:
  "hex_hsv example_externals ''ff0000'' = Some \<lparr>hue = 0, saturation = 0, hsv_value = 0\<rparr>"
  by (simp add: example_externals_def example_hex_hsv_def is_hex_def hexval_def)

lemma example_status_decodes:
  "\<exists>st. decodeStatus example_externals (toString_hex (example_status p m)) = Inr st"
  using decodeStatus_bytes [of "example_status p m" example_externals, OF example_status_facts(3)]
  by (simp add: example_status_color example_hex_hsv_color)

theorem mode_classification_examples:
  "animationMode (projr (decodeStatus example_externals (toString_hex (example_status 1 200)))) = 200
   \<and> presetEffectMode (projr (decodeStatus example_externals (toString_hex (example_status 1 200))))
       = UNKNOWN_MODE example_externals
   \<and> presetEffectMode (projr (decodeStatus example_externals (toString_hex (example_status 1 50)))) = 50
   \<and> animationMode (projr (decodeStatus example_externals (toString_hex (example_status 1 50))))
       = UNKNOWN_MODE example_externals
   \<and> animationMode (projr (decodeStatus example_externals (toString_hex (example_status 1 180))))
       = UNKNOWN_MODE example_externals
   \<and> presetEffectMode (projr (decodeStatus example_externals (toString_hex (example_status 1 180))))
       = UNKNOWN_MODE example_externals"
proof -
  obtain a where a: "decodeStatus example_externals (toString_hex (example_status 1 200)) = Inr a"
    using example_status_decodes by blast
  obtain b where b: "decodeStatus example_externals (toString_hex (example_status 1 50)) = Inr b"
    using example_status_decodes by blast
  obtain c where c: "decodeStatus example_externals (toString_hex (example_status 1 180)) = Inr c"
    using example_status_decodes by blast
  from mode_classification [OF example_status_facts(1) a]
    mode_classification [OF example_status_facts(1) b]
    mode_classification [OF example_status_facts(1) c]
  show ?thesis
    by (simp add: a b c example_status_facts)
qed



section \<open>Attempts and retries\<close>

lemma attemptExecute_keeps:
  assumes "attemptExecute cmd parameter responseLength w = (r, w')"
  shows "attempts w' = Suc (attempts w)" "backoffs w' = backoffs w" "calls w' = calls w"
    "statuses w' = statuses w" "env w' = env w"
  using assms
  by (auto simp: attemptExecute_def ensureConnected_def forceDisconnect_def Let_def
      split: if_splits connect_result.splits write_result.splits read_result.splits)

lemma delay_keeps:
  "attempts (delay ms w) = attempts w" "backoffs (delay ms w) = backoffs w @ [ms]"
  "calls (delay ms w) = calls w" "statuses (delay ms w) = statuses w" "env (delay ms w) = env w"
  by (simp_all add: delay_def)

lemma loop_facts:
  assumes "attempt \<le> 3"
    and "executeWithRetries_loop cmd parameter responseLength attempt lastErr w = (r, w')"
  shows "attempts w < attempts w' \<and> attempts w' + attempt \<le> attempts w + 4
       \<and> backoffs w' = backoffs w
            @ map (\<lambda>i. 200 * 2 ^ i) [attempt ..< attempt + (attempts w' - attempts w) - 1]
       \<and> calls w' = calls w \<and> statuses w' = statuses w
       \<and> (\<forall>e. r = Inl e \<longrightarrow>
             attempts w' + attempt = attempts w + 4
             \<and> (\<exists>w3. attempts w3 + attempt = attempts w + 3
                    \<and> attemptExecute cmd parameter responseLength w3 = (Inl e, w')))"
  using assms
proof (induction cmd parameter responseLength attempt lastErr w rule: executeWithRetries_loop.induct)
  case (1 cmd parameter responseLength attempt lastErr w)
  obtain r1 w1 where a: "attemptExecute cmd parameter responseLength w = (r1, w1)"
    by (cases "attemptExecute cmd parameter responseLength w")
  note k = attemptExecute_keeps [OF a]
  have unf: "executeWithRetries_loop cmd parameter responseLength attempt lastErr w =
      (case r1 of
         Inr s \<Rightarrow> (Inr s, w1)
       | Inl err \<Rightarrow>
           if attempt < 3
           then executeWithRetries_loop cmd parameter responseLength (Suc attempt) err
                  (delay (SEND_BASE_DELAY_MS * 2 ^ attempt) w1)
           else (Inl err, w1))"
    using "1.prems"(1) a
    by (subst executeWithRetries_loop.simps) (simp add: SEND_MAX_RETRIES_def split: sum.splits)
  show ?case
  proof (cases r1)
    case (Inr s)
    with unf "1.prems"(2) have "r = Inr s" "w' = w1"
      by simp_all
    with k "1.prems"(1) show ?thesis by simp
  next
    case (Inl err)
    show ?thesis
    proof (cases "attempt < 3")
      case False
      with "1.prems" have att: "attempt = 3" by simp
      with unf Inl "1.prems"(2) have "r = Inl err" "w' = w1"
        by simp_all
      with k a Inl att show ?thesis by auto
    next
      case True
      let ?w2 = "delay (SEND_BASE_DELAY_MS * 2 ^ attempt) w1"
      from True unf Inl "1.prems"(2) have rec:
        "executeWithRetries_loop cmd parameter responseLength (Suc attempt) err ?w2 = (r, w')"
        by simp
      from True have le: "attempt \<le> SEND_MAX_RETRIES" "attempt < SEND_MAX_RETRIES" "Suc attempt \<le> 3"
        by (simp_all add: SEND_MAX_RETRIES_def)
      note ih = "1.IH" [OF le(1) a [symmetric] Inl le(2) le(3) rec]
      have up: "[attempt ..< attempt + (attempts w' - attempts w) - 1]
                  = attempt # [Suc attempt ..< Suc attempt + (attempts w' - attempts ?w2) - 1]"
      proof -
        from ih k have gt: "Suc (attempts w) < attempts w'"
          by (simp add: delay_keeps)
        then have lt: "attempt < attempt + (attempts w' - attempts w) - 1"
          by arith
        from gt k have "Suc attempt + (attempts w' - attempts ?w2) - 1
            = attempt + (attempts w' - attempts w) - 1"
          by (simp add: delay_keeps)
        with upt_conv_Cons [OF lt] show ?thesis
          by simp
      qed
      from ih k show ?thesis
        unfolding up by (auto simp: delay_keeps SEND_BASE_DELAY_MS_def) (metis add.commute)
    qed
  qed
qed


lemma executeWithRetries_facts:
  assumes "executeWithRetries cmd parameter responseLength w = (r, w')"
  shows "attempts w < attempts w' \<and> attempts w' \<le> attempts w + 4
       \<and> backoffs w' = backoffs w @ map (\<lambda>i. 200 * 2 ^ i) [0 ..< attempts w' - attempts w - 1]
       \<and> calls w' = calls w \<and> statuses w' = statuses w
       \<and> (\<forall>e. r = Inl e \<longrightarrow>
             attempts w' = attempts w + 4
             \<and> (\<exists>w3. attempts w3 = attempts w + 3
                    \<and> attemptExecute cmd parameter responseLength w3 = (Inl e, w')))"
  using loop_facts [of 0 cmd parameter responseLength NullError w r w'] assms
  by (simp add: executeWithRetries_def)

lemma send_facts:
  assumes "send cmd parameter responseLength w = (r, w')"
  shows "attempts w < attempts w'" "attempts w' \<le> attempts w + 4"
    "backoffs w' = backoffs w @ map (\<lambda>i. 200 * 2 ^ i) [0 ..< attempts w' - attempts w - 1]"
    "calls w' = calls w @ [(cmd, parameter, responseLength)]" "statuses w' = statuses w"
  using executeWithRetries_facts [of cmd parameter responseLength
      "w\<lparr>calls := calls w @ [(cmd, parameter, responseLength)]\<rparr>" r w'] assms
  by (simp_all add: send_def)


lemma backoff_schedule: "map (\<lambda>i. 200 * 2 ^ i) [0 ..< 3] = [200, 400, 800 :: nat]"
proof -
  have "[0 ..< 3] = [0, 1, Suc 1]"
    by (simp add: upt_rec)
  then show ?thesis
    by simp
qed

text \<open>
  Claim C3. One call of \<^verbatim>\<open>send\<close> makes at least one and at most four attempts. The
  delays it waits are 200 ms, 400 ms and 800 ms, in this order, one after each failed
  attempt that is followed by another attempt: the delay before retry \<open>i\<close> is
  \<open>200 * 2 ^ i\<close>. When the call fails, four attempts were made, the three delays were
  waited, and the error is the one that the fourth attempt raised.
\<close>

theorem send_retries:
  assumes "send cmd parameter responseLength w = (r, w')"
  shows "attempts w < attempts w' \<and> attempts w' \<le> attempts w + 4
       \<and> backoffs w' = backoffs w @ map (\<lambda>i. 200 * 2 ^ i) [0 ..< attempts w' - attempts w - 1]
       \<and> (\<forall>e. r = Inl e \<longrightarrow>
             attempts w' = attempts w + 4
             \<and> backoffs w' = backoffs w @ [200, 400, 800]
             \<and> (\<exists>w3. attempts w3 = attempts w + 3
                    \<and> attemptExecute cmd parameter responseLength w3 = (Inl e, w')))"
proof -
  let ?w = "w\<lparr>calls := calls w @ [(cmd, parameter, responseLength)]\<rparr>"
  from assms have "executeWithRetries cmd parameter responseLength ?w = (r, w')"
    by (simp add: send_def)
  note f = executeWithRetries_facts [OF this]
  from f backoff_schedule show ?thesis
    by auto
qed

lemma fst_send_timeouts_example:
  "fst (send CMD_GET_STATUS NO_PARAMETER 17 (initial_world (steady_network ReadTimesOut)))
     = Inl ReadTimeout"
  by code_simp

theorem send_retries_example:
  "fst (send CMD_GET_STATUS NO_PARAMETER 17 (initial_world (steady_network ReadTimesOut)))
     = Inl ReadTimeout
   \<and> attempts (snd (send CMD_GET_STATUS NO_PARAMETER 17
        (initial_world (steady_network ReadTimesOut)))) = 4
   \<and> backoffs (snd (send CMD_GET_STATUS NO_PARAMETER 17
        (initial_world (steady_network ReadTimesOut)))) = [200, 400, 800]"
proof -
  let ?w = "initial_world (steady_network ReadTimesOut)"
  let ?s = "send CMD_GET_STATUS NO_PARAMETER 17 ?w"
  have s: "?s = (Inl ReadTimeout, snd ?s)"
    using fst_send_timeouts_example by (simp add: prod_eq_iff)
  have i: "attempts ?w = 0" "backoffs ?w = []"
    by (simp_all add: initial_world_def)
  from send_retries [OF s] i fst_send_timeouts_example show ?thesis
    by (simp add: backoff_schedule)
qed

section \<open>Decoding failures\<close>




section \<open>A read that yields nothing\<close>

lemma attemptExecute_undefined:
  assumes "0 < responseLength" "connect_io (env w (attempts w)) = Connects"
    "write_io (env w (attempts w)) = Written" "read_io (env w (attempts w)) = ReadUndefined"
  shows "fst (attemptExecute cmd parameter responseLength w) = Inr []"
    "connected (snd (attemptExecute cmd parameter responseLength w))"
    "wire (snd (attemptExecute cmd parameter responseLength w)) = wire w @ [rawHex cmd parameter]"
  using assms
  by (simp_all add: attemptExecute_def ensureConnected_def Let_def)

lemma executeWithRetries_first:
  assumes "fst (attemptExecute cmd parameter responseLength w) = Inr s"
  shows "executeWithRetries cmd parameter responseLength w
           = (Inr s, snd (attemptExecute cmd parameter responseLength w))"
proof -
  obtain w1 where w1: "attemptExecute cmd parameter responseLength w = (Inr s, w1)"
    using assms by (cases "attemptExecute cmd parameter responseLength w") simp
  have "executeWithRetries cmd parameter responseLength w = (Inr s, w1)"
    unfolding executeWithRetries_def
    by (subst executeWithRetries_loop.simps) (simp add: SEND_MAX_RETRIES_def w1)
  with w1 show ?thesis
    by simp
qed

lemma decodeStatus_empty:
  "decodeStatus x [] =
     (case hex_hsv x [] of
        None \<Rightarrow> Inl ConversionError
      | Some h \<Rightarrow> Inr
          \<lparr> rawResponse = [], on = False,
            animationMode = UNKNOWN_MODE x, presetEffectMode = UNKNOWN_MODE x,
            animationSpeed = None, brightness = None, colorOrder = None,
            ledsPerSegment = None, numberOfSegments = None, color = [], hsv = h,
            icType = None, recordedPatterns = None, whiteBrightness = None \<rparr>)"
  by (simp add: decodeStatus_def substring_def parseInt16_empty Let_def split: option.splits)

text \<open>
  Claim C10. Take an attempt in which the connection is made (or is already there), the
  write succeeds and the read resolves with \<^verbatim>\<open>undefined\<close>. A call of \<^verbatim>\<open>send\<close> that
  expects a response then succeeds with the empty string on this first attempt, without
  any retry, and leaves the client connected. \<^verbatim>\<open>getStatus\<close> goes on to decode the empty
  string: its outcome is what the colour conversion makes of the empty colour, either
  its error or a status whose numeric fields are all \<^verbatim>\<open>NaN\<close>, and never a socket error
  or a read timeout.
\<close>

theorem undefined_read_gives_empty_response:
  assumes "connect_io (env w (attempts w)) = Connects"
    and "write_io (env w (attempts w)) = Written"
    and "read_io (env w (attempts w)) = ReadUndefined"
  shows "(0 < responseLength \<longrightarrow>
            fst (send cmd parameter responseLength w) = Inr []
          \<and> attempts (snd (send cmd parameter responseLength w)) = Suc (attempts w)
          \<and> backoffs (snd (send cmd parameter responseLength w)) = backoffs w
          \<and> connected (snd (send cmd parameter responseLength w)))
       \<and> getStatus x w =
           (case hex_hsv x [] of
              None \<Rightarrow> (Inl ConversionError, snd (send CMD_GET_STATUS NO_PARAMETER 17 w))
            | Some h \<Rightarrow>
                (Inr (length (statuses w)),
                 (snd (send CMD_GET_STATUS NO_PARAMETER 17 w))
                   \<lparr>statuses := statuses w @
                     [\<lparr> rawResponse = [], on = False,
                        animationMode = UNKNOWN_MODE x, presetEffectMode = UNKNOWN_MODE x,
                        animationSpeed = None, brightness = None, colorOrder = None,
                        ledsPerSegment = None, numberOfSegments = None, color = [], hsv = h,
                        icType = None, recordedPatterns = None, whiteBrightness = None \<rparr>]\<rparr>))"
proof -
  have s: "send c p n w = (Inr [], snd (attemptExecute c p n (w\<lparr>calls := calls w @ [(c, p, n)]\<rparr>)))"
    if "0 < n" for c p n
  proof -
    let ?w = "w\<lparr>calls := calls w @ [(c, p, n)]\<rparr>"
    have "fst (attemptExecute c p n ?w) = Inr []"
      using assms that by (intro attemptExecute_undefined) simp_all
    then show ?thesis
      by (simp add: send_def executeWithRetries_first)
  qed
  have k: "attempts (snd (attemptExecute c p n (w\<lparr>calls := calls w @ [(c, p, n)]\<rparr>))) = Suc (attempts w)"
    "backoffs (snd (attemptExecute c p n (w\<lparr>calls := calls w @ [(c, p, n)]\<rparr>))) = backoffs w"
    "statuses (snd (attemptExecute c p n (w\<lparr>calls := calls w @ [(c, p, n)]\<rparr>))) = statuses w"
    for c p n
    using attemptExecute_keeps [OF surjective_pairing,
        of c p n "w\<lparr>calls := calls w @ [(c, p, n)]\<rparr>"]
    by simp_all
  have c: "connected (snd (attemptExecute c p n (w\<lparr>calls := calls w @ [(c, p, n)]\<rparr>)))"
    if "0 < n" for c p n
    using assms that by (intro attemptExecute_undefined) simp_all
  have "0 < responseLength \<longrightarrow>
            fst (send cmd parameter responseLength w) = Inr []
          \<and> attempts (snd (send cmd parameter responseLength w)) = Suc (attempts w)
          \<and> backoffs (snd (send cmd parameter responseLength w)) = backoffs w
          \<and> connected (snd (send cmd parameter responseLength w))"
    using s [of responseLength cmd parameter] k [of cmd parameter responseLength]
      c [of responseLength cmd parameter]
    by simp
  moreover have "getStatus x w =
           (case hex_hsv x [] of
              None \<Rightarrow> (Inl ConversionError, snd (send CMD_GET_STATUS NO_PARAMETER 17 w))
            | Some h \<Rightarrow>
                (Inr (length (statuses w)),
                 (snd (send CMD_GET_STATUS NO_PARAMETER 17 w))
                   \<lparr>statuses := statuses w @
                     [\<lparr> rawResponse = [], on = False,
                        animationMode = UNKNOWN_MODE x, presetEffectMode = UNKNOWN_MODE x,
                        animationSpeed = None, brightness = None, colorOrder = None,
                        ledsPerSegment = None, numberOfSegments = None, color = [], hsv = h,
                        icType = None, recordedPatterns = None, whiteBrightness = None \<rparr>]\<rparr>))"
    using s [of 17 CMD_GET_STATUS NO_PARAMETER] k(3) [of CMD_GET_STATUS NO_PARAMETER 17]
    by (simp add: getStatus_def decodeStatus_empty split: option.splits)
  ultimately show ?thesis by blast
qed

theorem undefined_read_example:
  "fst (send CMD_TOGGLE NO_PARAMETER 17 (initial_world (steady_network ReadUndefined))) = Inr []
   \<and> attempts (snd (send CMD_TOGGLE NO_PARAMETER 17 (initial_world (steady_network ReadUndefined)))) = 1
   \<and> fst (getStatus example_externals (initial_world (steady_network ReadUndefined)))
       = Inl ConversionError"
proof -
  let ?w = "initial_world (steady_network ReadUndefined)"
  have h: "connect_io (env ?w (attempts ?w)) = Connects"
    "write_io (env ?w (attempts ?w)) = Written"
    "read_io (env ?w (attempts ?w)) = ReadUndefined"
    by (simp_all add: initial_world_def steady_network_def example_io_def)
  have i: "attempts ?w = 0"
    by (simp add: initial_world_def)
  have e: "hex_hsv example_externals [] = None"
    by (simp add: example_externals_def example_hex_hsv_def)
  note t = undefined_read_gives_empty_response [OF h, of 17 CMD_TOGGLE NO_PARAMETER example_externals]
  from t have a: "fst (send CMD_TOGGLE NO_PARAMETER 17 ?w) = Inr []"
    "attempts (snd (send CMD_TOGGLE NO_PARAMETER 17 ?w)) = Suc (attempts ?w)"
    by simp_all
  from t have "getStatus example_externals ?w
      = (Inl ConversionError, snd (send CMD_GET_STATUS NO_PARAMETER 17 ?w))"
    unfolding e by simp
  then have "fst (getStatus example_externals ?w) = Inl ConversionError"
    by simp
  with a show ?thesis
    unfolding i by simp
qed

section \<open>Switching the power\<close>

lemma send_snd:
  "calls (snd (send cmd parameter responseLength w)) = calls w @ [(cmd, parameter, responseLength)]"
  "statuses (snd (send cmd parameter responseLength w)) = statuses w"
  using send_facts(4,5) [OF surjective_pairing, of cmd parameter responseLength w]
  by simp_all

lemma getStatus_calls:
  "calls (snd (getStatus x w)) = calls w @ [(CMD_GET_STATUS, NO_PARAMETER, 17)]"
proof -
  obtain r w1 where s: "send CMD_GET_STATUS NO_PARAMETER 17 w = (r, w1)"
    by (cases "send CMD_GET_STATUS NO_PARAMETER 17 w")
  from send_facts(4) [OF s] show ?thesis
    by (simp add: getStatus_def s split: sum.splits)
qed

lemma toggleOnOff_calls:
  "calls (snd (toggleOnOff w)) = calls w @ [(CMD_TOGGLE, NO_PARAMETER, 17)]"
  by (simp add: toggleOnOff_def send_snd)

lemma snd_case_sum_pair:
  "snd (case p of (Inl e, w2) \<Rightarrow> (Inl e, w2) | (Inr r, w2) \<Rightarrow> (Inr (f r), w2)) = snd p"
  by (simp split: prod.splits sum.splits)

text \<open>
  Claim C8. \<^verbatim>\<open>on\<close> and \<open>off\<close> first call \<^verbatim>\<open>getStatus\<close>, and nothing else when that
  fails. When the status is read, \<^verbatim>\<open>on\<close> calls \<^verbatim>\<open>send\<close> for the toggle command exactly
  when the status reports the power off, and \<open>off\<close> exactly when it reports the power
  on; without a toggle the call returns \<^verbatim>\<open>undefined\<close> in the state the status read left.
  Two calls of \<^verbatim>\<open>on\<close> in a row whose status reads both report the power on make two
  status reads and no toggle.
\<close>

theorem power_commands:
  "(getStatus x w = (Inl e, w1) \<longrightarrow>
       sp108e_on x w = (Inl e, w1) \<and> sp108e_off x w = (Inl e, w1)
     \<and> calls w1 = calls w @ [(CMD_GET_STATUS, NO_PARAMETER, 17)])
   \<and> (getStatus x w = (Inr a, w1) \<longrightarrow>
         calls (snd (sp108e_on x w)) = calls w @ [(CMD_GET_STATUS, NO_PARAMETER, 17)]
            @ (if on (statuses w1 ! a) then [] else [(CMD_TOGGLE, NO_PARAMETER, 17)])
       \<and> calls (snd (sp108e_off x w)) = calls w @ [(CMD_GET_STATUS, NO_PARAMETER, 17)]
            @ (if on (statuses w1 ! a) then [(CMD_TOGGLE, NO_PARAMETER, 17)] else [])
       \<and> (on (statuses w1 ! a) \<longrightarrow> sp108e_on x w = (Inr None, w1))
       \<and> (\<not> on (statuses w1 ! a) \<longrightarrow> sp108e_off x w = (Inr None, w1))
       \<and> (on (statuses w1 ! a) \<and> getStatus x w1 = (Inr b, w2) \<and> on (statuses w2 ! b) \<longrightarrow>
            sp108e_on x (snd (sp108e_on x w)) = (Inr None, w2)
          \<and> calls w2 = calls w
               @ [(CMD_GET_STATUS, NO_PARAMETER, 17), (CMD_GET_STATUS, NO_PARAMETER, 17)]))"
proof (intro conjI impI)
  assume g: "getStatus x w = (Inl e, w1)"
  then show "sp108e_on x w = (Inl e, w1)" "sp108e_off x w = (Inl e, w1)"
    by (simp_all add: sp108e_on_def sp108e_off_def)
  from g getStatus_calls [of x w] show "calls w1 = calls w @ [(CMD_GET_STATUS, NO_PARAMETER, 17)]"
    by simp
next
  assume g: "getStatus x w = (Inr a, w1)"
  from g getStatus_calls [of x w] have c1: "calls w1 = calls w @ [(CMD_GET_STATUS, NO_PARAMETER, 17)]"
    by simp
  from g c1 show "calls (snd (sp108e_on x w)) = calls w @ [(CMD_GET_STATUS, NO_PARAMETER, 17)]
            @ (if on (statuses w1 ! a) then [] else [(CMD_TOGGLE, NO_PARAMETER, 17)])"
    by (simp add: sp108e_on_def snd_case_sum_pair toggleOnOff_calls)
  from g c1 show "calls (snd (sp108e_off x w)) = calls w @ [(CMD_GET_STATUS, NO_PARAMETER, 17)]
            @ (if on (statuses w1 ! a) then [(CMD_TOGGLE, NO_PARAMETER, 17)] else [])"
    by (simp add: sp108e_off_def snd_case_sum_pair toggleOnOff_calls)
  {
    assume "on (statuses w1 ! a)"
    with g show "sp108e_on x w = (Inr None, w1)"
      by (simp add: sp108e_on_def)
  }
  {
    assume "\<not> on (statuses w1 ! a)"
    with g show "sp108e_off x w = (Inr None, w1)"
      by (simp add: sp108e_off_def)
  }
  {
    assume h: "on (statuses w1 ! a) \<and> getStatus x w1 = (Inr b, w2) \<and> on (statuses w2 ! b)"
    with g have first: "sp108e_on x w = (Inr None, w1)"
      by (simp add: sp108e_on_def)
    with h show "sp108e_on x (snd (sp108e_on x w)) = (Inr None, w2)"
      by (simp add: sp108e_on_def)
    from h getStatus_calls [of x w1] c1
    show "calls w2 = calls w
               @ [(CMD_GET_STATUS, NO_PARAMETER, 17), (CMD_GET_STATUS, NO_PARAMETER, 17)]"
      by simp
  }
qed


lemma example_world_calls: "calls (initial_world e) = []"
  by (simp add: initial_world_def)

lemma example_on_reads:
  "fst (getStatus example_externals
     (initial_world (steady_network (ReadBuffer (example_status 1 205))))) = Inr 0"
  "on (statuses (snd (getStatus example_externals
     (initial_world (steady_network (ReadBuffer (example_status 1 205)))))) ! 0)"
  "fst (getStatus example_externals (snd (getStatus example_externals
     (initial_world (steady_network (ReadBuffer (example_status 1 205))))))) = Inr 1"
  "on (statuses (snd (getStatus example_externals (snd (getStatus example_externals
     (initial_world (steady_network (ReadBuffer (example_status 1 205)))))))) ! 1)"
  by code_simp+

lemma example_off_reads:
  "fst (getStatus example_externals
     (initial_world (steady_network (ReadBuffer (example_status 0 205))))) = Inr 0"
  "\<not> on (statuses (snd (getStatus example_externals
     (initial_world (steady_network (ReadBuffer (example_status 0 205)))))) ! 0)"
  by code_simp+

lemma example_failed_read:
  "fst (getStatus example_externals (initial_world (steady_network ReadTimesOut)))
     = Inl ReadTimeout"
  by code_simp

theorem power_commands_example:
  "calls (snd (sp108e_on example_externals
      (initial_world (steady_network (ReadBuffer (example_status 1 205))))))
     = [(CMD_GET_STATUS, NO_PARAMETER, 17)]
   \<and> calls (snd (sp108e_on example_externals (snd (sp108e_on example_externals
      (initial_world (steady_network (ReadBuffer (example_status 1 205))))))))
     = [(CMD_GET_STATUS, NO_PARAMETER, 17), (CMD_GET_STATUS, NO_PARAMETER, 17)]
   \<and> calls (snd (sp108e_off example_externals
      (initial_world (steady_network (ReadBuffer (example_status 1 205))))))
     = [(CMD_GET_STATUS, NO_PARAMETER, 17), (CMD_TOGGLE, NO_PARAMETER, 17)]
   \<and> calls (snd (sp108e_on example_externals
      (initial_world (steady_network (ReadBuffer (example_status 0 205))))))
     = [(CMD_GET_STATUS, NO_PARAMETER, 17), (CMD_TOGGLE, NO_PARAMETER, 17)]
   \<and> calls (snd (sp108e_off example_externals
      (initial_world (steady_network (ReadBuffer (example_status 0 205))))))
     = [(CMD_GET_STATUS, NO_PARAMETER, 17)]
   \<and> fst (sp108e_on example_externals (initial_world (steady_network ReadTimesOut)))
     = Inl ReadTimeout"
proof -
  let ?x = example_externals
  let ?on = "initial_world (steady_network (ReadBuffer (example_status 1 205)))"
  let ?off = "initial_world (steady_network (ReadBuffer (example_status 0 205)))"
  let ?bad = "initial_world (steady_network ReadTimesOut)"
  obtain w1 where g1: "getStatus ?x ?on = (Inr 0, w1)"
    using example_on_reads(1) by (cases "getStatus ?x ?on") simp
  obtain w2 where g2: "getStatus ?x w1 = (Inr 1, w2)"
    using example_on_reads(3) g1 by (cases "getStatus ?x w1") simp
  have p1: "on (statuses w1 ! 0)" "on (statuses w2 ! 1)"
    using example_on_reads(2,4) g1 g2 by simp_all
  obtain w3 where g3: "getStatus ?x ?off = (Inr 0, w3)"
    using example_off_reads(1) by (cases "getStatus ?x ?off") simp
  have p3: "\<not> on (statuses w3 ! 0)"
    using example_off_reads(2) g3 by simp
  obtain w4 where g4: "getStatus ?x ?bad = (Inl ReadTimeout, w4)"
    using example_failed_read by (cases "getStatus ?x ?bad") simp
  note t1 = power_commands [of ?x ?on undefined w1 0 1 w2]
  note t2 = power_commands [of ?x ?off undefined w3 0 undefined undefined]
  note t3 = power_commands [of ?x ?bad ReadTimeout w4 undefined undefined undefined]
  from t1 g1 g2 p1 have a:
    "calls (snd (sp108e_on ?x ?on)) = [(CMD_GET_STATUS, NO_PARAMETER, 17)]"
    "calls (snd (sp108e_on ?x (snd (sp108e_on ?x ?on))))
       = [(CMD_GET_STATUS, NO_PARAMETER, 17), (CMD_GET_STATUS, NO_PARAMETER, 17)]"
    "calls (snd (sp108e_off ?x ?on)) = [(CMD_GET_STATUS, NO_PARAMETER, 17), (CMD_TOGGLE, NO_PARAMETER, 17)]"
    by (auto simp: example_world_calls)
  from t2 g3 p3 have b:
    "calls (snd (sp108e_on ?x ?off)) = [(CMD_GET_STATUS, NO_PARAMETER, 17), (CMD_TOGGLE, NO_PARAMETER, 17)]"
    "calls (snd (sp108e_off ?x ?off)) = [(CMD_GET_STATUS, NO_PARAMETER, 17)]"
    by (auto simp: example_world_calls)
  from t3 g4 have c: "fst (sp108e_on ?x ?bad) = Inl ReadTimeout"
    by simp
  from a b c show ?thesis
    by simp
qed

section \<open>Setting the colour\<close>

lemma getStatus_decoded:
  assumes "getStatus x w = (Inr a, w1)"
  shows "a = length (statuses w)" "a < length (statuses w1)"
    "\<exists>st. statuses w1 = statuses w @ [st]"
    "decodeStatus x (rawResponse (statuses w1 ! a)) = Inr (statuses w1 ! a)"
proof -
  obtain r w0 where s: "send CMD_GET_STATUS NO_PARAMETER 17 w = (r, w0)"
    by (cases "send CMD_GET_STATUS NO_PARAMETER 17 w")
  note k = send_facts(5) [OF s]
  from assms s obtain response st where r: "r = Inr response"
    and d: "decodeStatus x response = Inr st"
    and a: "a = length (statuses w0)" and w1: "w1 = w0\<lparr>statuses := statuses w0 @ [st]\<rparr>"
    by (auto simp: getStatus_def split: sum.splits)
  from d have "rawResponse st = response"
    by (auto simp: decodeStatus_def Let_def split: option.splits)
  with a w1 k d show "a = length (statuses w)" "a < length (statuses w1)"
    "\<exists>st. statuses w1 = statuses w @ [st]"
    "decodeStatus x (rawResponse (statuses w1 ! a)) = Inr (statuses w1 ! a)"
    by simp_all
qed

lemma getStatus_failed:
  assumes "getStatus x w = (Inl e, w1)"
  shows "statuses w1 = statuses w"
proof -
  obtain r w0 where s: "send CMD_GET_STATUS NO_PARAMETER 17 w = (r, w0)"
    by (cases "send CMD_GET_STATUS NO_PARAMETER 17 w")
  from assms s send_facts(5) [OF s] show ?thesis
    by (auto simp: getStatus_def split: sum.splits)
qed








section \<open>Status objects\<close>

lemma statuses_kept:
  "statuses (snd (toggleOnOff w)) = statuses w"
  "statuses (snd (setAnimationMode m w)) = statuses w"
  "statuses (snd (setPresetMode m w)) = statuses w"
  by (simp_all add: toggleOnOff_def setAnimationMode_def setPresetMode_def send_snd Let_def)

lemma getStatus_statuses: "\<exists>ys. statuses (snd (getStatus x w)) = statuses w @ ys"
proof (cases "getStatus x w")
  case (Pair r w1)
  show ?thesis
  proof (cases r)
    case (Inl e)
    with Pair getStatus_failed [of x w e w1] show ?thesis by simp
  next
    case (Inr a)
    with Pair getStatus_decoded(3) [of x w a w1] show ?thesis by auto
  qed
qed

lemma sp108e_on_statuses: "\<exists>ys. statuses (snd (sp108e_on x w)) = statuses w @ ys"
proof (cases "getStatus x w")
  case (Pair r w1)
  from getStatus_statuses [of x w] Pair obtain ys where ys: "statuses w1 = statuses w @ ys"
    by auto
  from Pair statuses_kept(1) [of w1] have "statuses (snd (sp108e_on x w)) = statuses w1"
    by (simp add: sp108e_on_def snd_case_sum_pair split: sum.splits)
  with ys show ?thesis by simp
qed

lemma sp108e_off_statuses: "\<exists>ys. statuses (snd (sp108e_off x w)) = statuses w @ ys"
proof (cases "getStatus x w")
  case (Pair r w1)
  from getStatus_statuses [of x w] Pair obtain ys where ys: "statuses w1 = statuses w @ ys"
    by auto
  from Pair statuses_kept(1) [of w1] have "statuses (snd (sp108e_off x w)) = statuses w1"
    by (simp add: sp108e_off_def snd_case_sum_pair split: sum.splits)
  with ys show ?thesis by simp
qed

lemma setColor_statuses: "\<exists>ys. statuses (snd (setColor x hexColor w)) = statuses w @ ys"
proof (cases "getStatus x w")
  case (Pair r w1)
  from getStatus_statuses [of x w] Pair obtain ys where ys: "statuses w1 = statuses w @ ys"
    by auto
  let ?m = "send CMD_SET_ANIMATION_MODE (intToHex (Some (ANIMATION_MODE_STATIC x))) 0 w1"
  obtain rm w2 where m: "?m = (rm, w2)" by (cases ?m)
  from send_facts(5) [OF m] have "statuses w2 = statuses w1" .
  with Pair m have "statuses (snd (setColor x hexColor w)) = statuses w1"
    by (simp add: setColor_def send_snd split: sum.splits)
  with ys show ?thesis by simp
qed

lemma setPresetModeOn_statuses:
  assumes "deviceStatus acc = Some ds" and "ds < length (statuses w)"
  shows "\<exists>ys m. statuses (snd (snd (setPresetModeOn x v acc w)))
           = (statuses w)[ds := (statuses w ! ds)\<lparr>presetEffectMode := m\<rparr>] @ ys"
proof -
  let ?res = "statuses (snd (snd (setPresetModeOn x v acc w)))"
  let ?same = "presetEffectMode (statuses w ! ds)"
  have same: "(statuses w)[ds := (statuses w ! ds)\<lparr>presetEffectMode := ?same\<rparr>] = statuses w"
    by simp
  have kept: "\<exists>ys m. ?res = (statuses w)[ds := (statuses w ! ds)\<lparr>presetEffectMode := m\<rparr>] @ ys"
    if "?res = statuses w @ ys" for ys
    using that same by metis
  have written: "\<exists>ys m. ?res = (statuses w)[ds := (statuses w ! ds)\<lparr>presetEffectMode := m\<rparr>] @ ys"
    if "?res = (statuses w @ ys)[ds := ((statuses w @ ys) ! ds)\<lparr>presetEffectMode := m\<rparr>]" for ys m
  proof -
    from assms(2) have "(statuses w @ ys)[ds := ((statuses w @ ys) ! ds)\<lparr>presetEffectMode := m\<rparr>]
        = (statuses w)[ds := (statuses w ! ds)\<lparr>presetEffectMode := m\<rparr>] @ ys"
      by (simp add: list_update_append1 nth_append)
    with that show ?thesis by metis
  qed
  show ?thesis
  proof (cases "on (statuses w ! ds)")
    case True
    have "?res = statuses w @ [] \<or>
          (\<exists>m. ?res = (statuses w @ [])[ds := ((statuses w @ []) ! ds)\<lparr>presetEffectMode := m\<rparr>])"
      using assms(1) True
      by (auto simp: setPresetModeOn_def Let_def statuses_kept)
    with kept written show ?thesis by blast
  next
    case False
    obtain r w1 where o: "sp108e_on x w = (r, w1)"
      by (cases "sp108e_on x w")
    from o sp108e_on_statuses [of x w] obtain ys where ys: "statuses w1 = statuses w @ ys"
      by auto
    have "?res = statuses w @ [] \<or> ?res = statuses w @ ys \<or>
          (\<exists>m. ?res = (statuses w @ ys)[ds := ((statuses w @ ys) ! ds)\<lparr>presetEffectMode := m\<rparr>])"
      using assms(1) False o ys
      by (cases r) (auto simp: setPresetModeOn_def Let_def statuses_kept)
    with kept written show ?thesis by blast
  qed
qed


text \<open>
  Claim C6, as the source has it. The accessory holds the status object that a status
  read produced while the device ran animation 205, so its \<open>presetEffectMode\<close> is the
  sentinel. \<^verbatim>\<open>setPresetModeOn\<close> with a true value then writes the accessory's preset
  number 5 into that same object: no new object is made.
\<close>

theorem cached_status_overwritten:
  "presetEffectMode (statuses (snd (getStatus example_externals
      (initial_world (steady_network (ReadBuffer (example_status 1 205)))))) ! 0) = - 1
   \<and> presetEffectMode (statuses (snd (snd (setPresetModeOn example_externals True
        \<lparr>deviceStatus = Some 0, presetOn = False, presetEffectNumber = 5\<rparr>
        (snd (getStatus example_externals
          (initial_world (steady_network (ReadBuffer (example_status 1 205)))))))))
      ! 0) = 5
   \<and> length (statuses (snd (snd (setPresetModeOn example_externals True
        \<lparr>deviceStatus = Some 0, presetOn = False, presetEffectNumber = 5\<rparr>
        (snd (getStatus example_externals
          (initial_world (steady_network (ReadBuffer (example_status 1 205)))))))))) = 1"
  by code_simp

text \<open>
  Claim C6, amended. Every successful call of \<^verbatim>\<open>getStatus\<close> makes a new status object
  and leaves the earlier ones as they were, a failed call makes none, and no operation
  of the client changes an object once it is made: \<^verbatim>\<open>send\<close> and the commands built on
  it keep all objects, and those that read the status only add new ones. The accessory's
  \<^verbatim>\<open>setPresetModeOn\<close> does write to the object it holds, in place, and only to its field
  \<open>presetEffectMode\<close>: every other field of that object and every other object stay
  the same.
\<close>

theorem status_objects:
  "(getStatus x w = (Inr a, w1) \<longrightarrow>
      a = length (statuses w) \<and> (\<exists>st. statuses w1 = statuses w @ [st]))
   \<and> (getStatus x w = (Inl e, w1) \<longrightarrow> statuses w1 = statuses w)
   \<and> statuses (snd (send cmd parameter responseLength w)) = statuses w
   \<and> statuses (snd (toggleOnOff w)) = statuses w
   \<and> statuses (snd (setAnimationMode m w)) = statuses w
   \<and> statuses (snd (setPresetMode m w)) = statuses w
   \<and> (\<exists>ys. statuses (snd (sp108e_on x w)) = statuses w @ ys)
   \<and> (\<exists>ys. statuses (snd (sp108e_off x w)) = statuses w @ ys)
   \<and> (\<exists>ys. statuses (snd (setColor x hexColor w)) = statuses w @ ys)
   \<and> (deviceStatus acc = Some ds \<and> ds < length (statuses w) \<longrightarrow>
        (\<exists>ys n. statuses (snd (snd (setPresetModeOn x v acc w)))
           = (statuses w)[ds := (statuses w ! ds)\<lparr>presetEffectMode := n\<rparr>] @ ys))"
  using getStatus_decoded(1,3) [of x w a w1] getStatus_failed [of x w e w1]
    send_snd(2) [of cmd parameter responseLength w] statuses_kept
    sp108e_on_statuses [of x w] sp108e_off_statuses [of x w] setColor_statuses [of x hexColor w]
    setPresetModeOn_statuses [of acc ds w x v]
  by simp

theorem status_objects_example:
  "fst (getStatus example_externals
      (initial_world (steady_network (ReadBuffer (example_status 1 205))))) = Inr 0
   \<and> statuses (snd (getStatus example_externals (initial_world (steady_network ReadTimesOut)))) = []
   \<and> (\<exists>ys n. statuses (snd (snd (setPresetModeOn example_externals True
          \<lparr>deviceStatus = Some 0, presetOn = False, presetEffectNumber = 5\<rparr>
          (snd (getStatus example_externals
            (initial_world (steady_network (ReadBuffer (example_status 1 205)))))))))
        = (statuses (snd (getStatus example_externals
             (initial_world (steady_network (ReadBuffer (example_status 1 205)))))))
          [0 := (statuses (snd (getStatus example_externals
             (initial_world (steady_network (ReadBuffer (example_status 1 205)))))) ! 0)
             \<lparr>presetEffectMode := n\<rparr>] @ ys)"
proof -
  let ?x = example_externals
  let ?anim = "initial_world (steady_network (ReadBuffer (example_status 1 205)))"
  let ?bad = "initial_world (steady_network ReadTimesOut)"
  let ?acc = "\<lparr>deviceStatus = Some 0, presetOn = False, presetEffectNumber = 5\<rparr>"
  have i: "statuses ?anim = []" "statuses ?bad = []"
    by (simp_all add: initial_world_def)
  obtain w1 where g1: "getStatus ?x ?anim = (Inr 0, w1)"
    using example_on_reads(1) by (cases "getStatus ?x ?anim") simp
  obtain w4 where g4: "getStatus ?x ?bad = (Inl ReadTimeout, w4)"
    using example_failed_read by (cases "getStatus ?x ?bad") simp
  note t1 = status_objects [where x = ?x and w = ?anim and a = 0 and ?w1.0 = w1]
  note t4 = status_objects [where x = ?x and w = ?bad and e = ReadTimeout and ?w1.0 = w4]
  from t1 g1 i have l: "0 < length (statuses w1)"
    by auto
  note t5 = status_objects [where x = ?x and w = w1 and acc = ?acc and ds = 0 and v = True]
  from t5 l have "\<exists>ys n. statuses (snd (snd (setPresetModeOn ?x True ?acc w1)))
        = (statuses w1)[0 := (statuses w1 ! 0)\<lparr>presetEffectMode := n\<rparr>] @ ys"
    by simp
  moreover from t4 g4 i have "statuses w4 = []"
    by simp
  ultimately show ?thesis
    using g1 g4 by simp
qed

section \<open>One send at a time\<close>

lemma map_update_same:
  assumes "f y = f (xs ! i)"
  shows "map f (xs[i := y]) = map f xs"
proof (rule nth_equalityI)
  show "length (map f (xs[i := y])) = length (map f xs)"
    by simp
next
  fix k
  assume "k < length (map f (xs[i := y]))"
  with assms show "map f (xs[i := y]) ! k = map f xs ! k"
    by (cases "k = i") simp_all
qed

lemma chain_ok_initial: "chain_ok initial_chain"
  by (simp add: chain_ok_def initial_chain_def)

lemma chain_ok_Send:
  assumes "chain_ok c"
  shows "chain_ok (step c (Send u))"
  using assms
  by (auto simp: chain_ok_def nth_append less_Suc_eq)

lemma chain_ok_Finish:
  assumes "chain_ok c"
  shows "chain_ok (step c (Finish i ok))"
proof (cases "i < length (links c) \<and> queued (links c ! i) = Running")
  case False
  with assms show ?thesis by auto
next
  case True
  let ?l = "(links c ! i)\<lparr>queued := (if ok then Fulfilled else Rejected)\<rparr>"
  have w: "map work ((links c)[i := ?l]) = map work (links c)"
    by (simp add: map_update_same)
  from True have s: "step c (Finish i ok) = c\<lparr>links := (links c)[i := ?l]\<rparr>"
    by simp
  have t: "map work (take n ((links c)[i := ?l])) = map work (take n (links c))" for n
    using w by (simp add: take_map [symmetric])
  from assms True show ?thesis
    unfolding s chain_ok_def
    by (auto simp: nth_list_update settled_def t)
qed

lemma chain_ok_ReactTail:
  assumes "chain_ok c"
  shows "chain_ok (step c (ReactTail i))"
proof (cases "i < length (links c) \<and> tail (links c ! i) = Pending \<and> settled (queued (links c ! i))")
  case False
  with assms show ?thesis by auto
next
  case True
  let ?l = "(links c ! i)\<lparr>tail := Fulfilled\<rparr>"
  have w: "map work ((links c)[i := ?l]) = map work (links c)"
    by (simp add: map_update_same)
  from True have s: "step c (ReactTail i) = c\<lparr>links := (links c)[i := ?l]\<rparr>"
    by simp
  have t: "map work (take n ((links c)[i := ?l])) = map work (take n (links c))" for n
    using w by (simp add: take_map [symmetric])
  from assms True show ?thesis
    unfolding s chain_ok_def
    by (auto simp: nth_list_update t)
qed


lemma chain_ok_ReactQueued:
  assumes "chain_ok c"
  shows "chain_ok (step c (ReactQueued j))"
proof (cases "j < length (links c) \<and> queued (links c ! j) = Pending")
  case False
  with assms show ?thesis by auto
next
  case True
  let ?k = "length (started c)"
  from assms have
    tails: "\<And>i. i < length (links c) \<Longrightarrow>
              tail (links c ! i) = Pending \<or> tail (links c ! i) = Fulfilled"
    and fin: "\<And>i. i < length (links c) \<Longrightarrow> tail (links c ! i) = Fulfilled \<Longrightarrow>
              settled (queued (links c ! i))"
    and begun: "\<And>i. i < length (links c) \<Longrightarrow> queued (links c ! i) \<noteq> Pending \<longleftrightarrow> i < ?k"
    and before: "\<And>i j. j < length (links c) \<Longrightarrow> i < j \<Longrightarrow> queued (links c ! j) \<noteq> Pending \<Longrightarrow>
              tail (links c ! i) = Fulfilled"
    and len: "?k \<le> length (links c)"
    and pre: "started c = map work (take ?k (links c))"
    unfolding chain_ok_def by blast+
  from True begun have kj: "?k \<le> j"
    by (meson not_le)
  have prev: "previous_tail (links c) j = Pending \<or> previous_tail (links c) j = Fulfilled"
    using tails [of "j - 1"] True by (auto simp: previous_tail_def)
  show ?thesis
  proof (cases "previous_tail (links c) j = Fulfilled")
    case False
    with prev True have "step c (ReactQueued j) = c"
      by auto
    with assms show ?thesis by simp
  next
    case ful: True
    have jk: "j = ?k"
    proof (cases j)
      case 0
      with kj show ?thesis by simp
    next
      case (Suc n)
      with ful have "tail (links c ! n) = Fulfilled"
        by (simp add: previous_tail_def)
      with fin [of n] True Suc have "queued (links c ! n) \<noteq> Pending"
        by (auto simp: settled_def)
      with begun [of n] True Suc have "n < ?k"
        by simp
      with kj Suc show ?thesis by simp
    qed
    have allful: "tail (links c ! i) = Fulfilled" if "i < j" for i
    proof (cases "Suc i = j")
      case True
      with ful show ?thesis by (auto simp: previous_tail_def)
    next
      case False
      with that have lt: "i < j - 1" "j - 1 < length (links c)" "j - 1 < ?k"
        using True jk by auto
      from begun [of "j - 1"] lt have "queued (links c ! (j - 1)) \<noteq> Pending"
        by simp
      from before [OF lt(2) lt(1) this] show ?thesis .
    qed
    let ?l = "(links c ! j)\<lparr>queued := Running\<rparr>"
    from True ful have s: "step c (ReactQueued j)
        = c\<lparr>links := (links c)[j := ?l], started := started c @ [work (links c ! j)]\<rparr>"
      by simp
    have w: "map work ((links c)[j := ?l]) = map work (links c)"
      by (simp add: map_update_same)
    have t: "map work (take n ((links c)[j := ?l])) = map work (take n (links c))" for n
      using w by (simp add: take_map [symmetric])
    have st: "started c @ [work (links c ! j)] = map work (take (Suc ?k) (links c))"
      using pre True jk by (simp add: take_Suc_conv_app_nth)
    show ?thesis
      unfolding s chain_ok_def
    proof (intro conjI allI impI)
      fix i
      assume i: "i < length (links (c\<lparr>links := (links c)[j := ?l], started := started c @ [work (links c ! j)]\<rparr>))"
      then have i': "i < length (links c)" by simp
      let ?c = "c\<lparr>links := (links c)[j := ?l], started := started c @ [work (links c ! j)]\<rparr>"
      from tails [OF i'] show "tail (links ?c ! i) = Pending \<or> tail (links ?c ! i) = Fulfilled"
        using i' by (cases "i = j") simp_all
      show "settled (queued (links ?c ! i))" if "tail (links ?c ! i) = Fulfilled"
      proof (cases "i = j")
        case True
        with that i' have "tail (links c ! j) = Fulfilled" by simp
        from fin [OF _ this] \<open>j < length (links c) \<and> queued (links c ! j) = Pending\<close>
        show ?thesis by (simp add: settled_def)
      next
        case False
        with that i' fin [of i] show ?thesis by simp
      qed
      show "(queued (links ?c ! i) \<noteq> Pending) = (i < length (started ?c))"
        using begun [OF i'] i' jk by (cases "i = j") auto
    next
      fix ja i
      let ?c = "c\<lparr>links := (links c)[j := ?l], started := started c @ [work (links c ! j)]\<rparr>"
      assume ja: "ja < length (links ?c)" and i: "i < ja"
        and q: "queued (links ?c ! ja) \<noteq> Pending"
      have "tail (links c ! i) = Fulfilled"
      proof (cases "ja = j")
        case True
        with i allful show ?thesis by simp
      next
        case False
        with ja q have "queued (links c ! ja) \<noteq> Pending" by simp
        with before [of ja i] ja i show ?thesis by simp
      qed
      with i ja show "tail (links ?c ! i) = Fulfilled"
        by (cases "i = j") simp_all
    next
      show "length (started (c\<lparr>links := (links c)[j := ?l], started := started c @ [work (links c ! j)]\<rparr>))
          \<le> length (links (c\<lparr>links := (links c)[j := ?l], started := started c @ [work (links c ! j)]\<rparr>))"
        using True jk by simp
    next
      show "started (c\<lparr>links := (links c)[j := ?l], started := started c @ [work (links c ! j)]\<rparr>)
          = map work (take (length (started (c\<lparr>links := (links c)[j := ?l], started := started c @ [work (links c ! j)]\<rparr>)))
              (links (c\<lparr>links := (links c)[j := ?l], started := started c @ [work (links c ! j)]\<rparr>)))"
      proof -
        let ?c = "c\<lparr>links := (links c)[j := ?l], started := started c @ [work (links c ! j)]\<rparr>"
        have "map work (take (length (started ?c)) (links ?c))
            = map work (take (Suc ?k) ((links c)[j := ?l]))"
          by simp
        also have "\<dots> = map work (take (Suc ?k) (links c))"
          by (rule t)
        also have "\<dots> = started c @ [work (links c ! j)]"
          by (rule st [symmetric])
        also have "\<dots> = started ?c"
          by simp
        finally show ?thesis
          by (rule sym)
      qed
    qed
  qed
qed


lemma chain_ok_step: "chain_ok c \<Longrightarrow> chain_ok (step c e)"
  by (cases e) (simp_all only: chain_ok_Send chain_ok_ReactQueued chain_ok_Finish chain_ok_ReactTail)

lemma chain_ok_foldl: "chain_ok c \<Longrightarrow> chain_ok (foldl step c evs)"
  by (induction evs arbitrary: c) (simp_all add: chain_ok_step)

lemma chain_ok_run: "chain_ok (run evs)"
  by (simp add: run_def chain_ok_foldl chain_ok_initial)

lemma work_step:
  "map work (links (step c e)) = map work (links c) @ sent [e]"
  by (cases e) (auto simp: map_update_same split: promise.splits)

lemma sent_Cons: "sent (e # evs) = sent [e] @ sent evs"
  by (cases e) simp_all

lemma work_foldl:
  "map work (links (foldl step c evs)) = map work (links c) @ sent evs"
proof (induction evs arbitrary: c)
  case Nil
  show ?case by simp
next
  case (Cons e evs)
  show ?case
    using Cons [of "step c e"] work_step [of c e] sent_Cons [of e evs] by simp
qed

lemma work_run: "map work (links (run evs)) = sent evs"
  using work_foldl [of initial_chain evs] by (simp add: run_def initial_chain_def)

lemma one_in_flight:
  assumes "chain_ok c" "in_flight c i" "in_flight c j"
  shows "i = j"
proof -
  have no: False if "a < b" "in_flight c a" "in_flight c b" for a b
  proof -
    from that have "b < length (links c)" "queued (links c ! b) \<noteq> Pending"
      by (simp_all add: in_flight_def)
    with assms(1) that(1) have "tail (links c ! a) = Fulfilled"
      unfolding chain_ok_def by blast
    moreover from that have "a < length (links c)"
      by (simp add: in_flight_def)
    ultimately have "settled (queued (links c ! a))"
      using assms(1) unfolding chain_ok_def by blast
    with that(2) show False
      by (simp add: in_flight_def settled_def)
  qed
  from no [of i j] no [of j i] assms(2,3) show ?thesis
    by (meson linorder_neqE_nat)
qed

lemma started_prefix:
  assumes "chain_ok c"
  shows "started c = take (length (started c)) (map work (links c))"
  using assms unfolding chain_ok_def by (simp add: take_map)

lemma turn_starts_next:
  assumes ok: "chain_ok c" and more: "length (started c) < length (links c)"
  shows "in_flight (turn c r) (length (started c))"
    "started (turn c r) = started c @ [work (links c ! length (started c))]"
proof -
  let ?k = "length (started c)"
  from ok more have pend: "queued (links c ! ?k) = Pending"
    unfolding chain_ok_def by blast
  have "in_flight (turn c r) ?k \<and> started (turn c r) = started c @ [work (links c ! ?k)]"
  proof (cases ?k)
    case 0
    with more pend show ?thesis
      by (simp add: turn_def Let_def previous_tail_def settled_def in_flight_def)
  next
    case (Suc n)
    with ok more have q: "queued (links c ! n) \<noteq> Pending"
      and t: "tail (links c ! n) = Pending \<or> tail (links c ! n) = Fulfilled"
      and f: "tail (links c ! n) = Fulfilled \<longrightarrow> settled (queued (links c ! n))"
      unfolding chain_ok_def by simp_all
    from Suc more have n: "n < length (links c)" "Suc n < length (links c)"
      by simp_all
    from q t f n pend Suc show ?thesis
      by (cases "queued (links c ! n)")
        (auto simp: turn_def Let_def previous_tail_def settled_def in_flight_def)
  qed
  then show "in_flight (turn c r) ?k"
    "started (turn c r) = started c @ [work (links c ! ?k)]"
    by simp_all
qed

lemma turn_keeps:
  "chain_ok c \<Longrightarrow> chain_ok (turn c r)" "map work (links (turn c r)) = map work (links c)"
proof -
  show "chain_ok c \<Longrightarrow> chain_ok (turn c r)"
    unfolding turn_def Let_def by (rule chain_ok_foldl)
  show "map work (links (turn c r)) = map work (links c)"
    by (simp only: turn_def Let_def work_foldl sent.simps append_Nil2)
qed

lemma turns_start_all:
  assumes "chain_ok c" "length oks = length (links c) - length (started c)"
  shows "started (turns c oks) = map work (links c)"
  using assms
proof (induction oks arbitrary: c)
  case Nil
  then have "length (started c) = length (links c)"
    unfolding chain_ok_def by simp
  with started_prefix [OF Nil(1)] show ?case
    by (simp add: turns_def)
next
  case (Cons r oks)
  then have more: "length (started c) < length (links c)"
    by simp
  note s = turn_starts_next [OF Cons(2) more, of r]
  note k = turn_keeps [of c r]
  from k(2) have "length (links (turn c r)) = length (links c)"
    by (metis length_map)
  with s(2) Cons(3) have "length oks = length (links (turn c r)) - length (started (turn c r))"
    by simp
  from Cons(1) [OF k(1) [OF Cons(2)] this] k(2) show ?case
    by (simp add: turns_def)
qed


text \<open>
  Claim C1. After any sequence of calls of \<^verbatim>\<open>send\<close>, reactions of promises and ends of
  units of work: at most one unit of work is in flight; the links carry the units in the
  order the calls were made, and the units that have started are the first of them, in
  that order; a \<open>queued\<close> promise has left the pending state exactly when its unit has
  started, so no unit is ever skipped; while a unit is waiting, the turn that follows
  the end of the unit in flight starts the first waiting unit, whether the unit in
  flight succeeded or failed; and as many turns as units are waiting start every one of
  them, in the order of the calls, whatever the results.
\<close>

theorem send_chain_serialises:
  "(\<forall>i j. in_flight (run evs) i \<and> in_flight (run evs) j \<longrightarrow> i = j)
   \<and> map work (links (run evs)) = sent evs
   \<and> started (run evs) = take (length (started (run evs))) (sent evs)
   \<and> (\<forall>i < length (links (run evs)).
         queued (links (run evs) ! i) \<noteq> Pending \<longleftrightarrow> i < length (started (run evs)))
   \<and> (length (started (run evs)) < length (sent evs) \<longrightarrow>
         in_flight (turn (run evs) ok) (length (started (run evs)))
       \<and> started (turn (run evs) ok)
           = started (run evs) @ [sent evs ! length (started (run evs))])
   \<and> (length oks = length (sent evs) - length (started (run evs)) \<longrightarrow>
         started (turns (run evs) oks) = sent evs)"
proof -
  let ?c = "run evs"
  note inv = chain_ok_run [of evs]
  note w = work_run [of evs]
  from w have len: "length (links ?c) = length (sent evs)"
    by (metis length_map)
  have a: "\<forall>i j. in_flight ?c i \<and> in_flight ?c j \<longrightarrow> i = j"
    using one_in_flight [OF inv] by blast
  have b: "started ?c = take (length (started ?c)) (sent evs)"
    using started_prefix [OF inv] w by simp
  have c: "\<forall>i < length (links ?c). queued (links ?c ! i) \<noteq> Pending \<longleftrightarrow> i < length (started ?c)"
    using inv unfolding chain_ok_def by blast
  have d: "in_flight (turn ?c ok) (length (started ?c))
       \<and> started (turn ?c ok) = started ?c @ [sent evs ! length (started ?c)]"
    if more: "length (started ?c) < length (sent evs)"
  proof -
    from more len have m: "length (started ?c) < length (links ?c)"
      by simp
    then have "work (links ?c ! length (started ?c)) = sent evs ! length (started ?c)"
      using w by (metis nth_map)
    with turn_starts_next [OF inv m, of ok] show ?thesis
      by simp
  qed
  have e: "started (turns ?c oks) = sent evs"
    if "length oks = length (sent evs) - length (started ?c)"
    using turns_start_all [OF inv, of oks] that len w by simp
  from a w b c d e show ?thesis
    by blast
qed

lemma chain_example:
  "in_flight (run [Send (1::nat), Send 2, ReactQueued 0, ReactQueued 1]) 0"
  "started (run [Send (1::nat), Send 2, ReactQueued 0]) = [1]"
  "sent [Send (1::nat), Send 2, ReactQueued 0] = [1, 2]"
  "length (links (run [Send (1::nat), Send 2, ReactQueued 0])) = 2"
  by code_simp+

theorem send_chain_example:
  "\<not> in_flight (run [Send (1::nat), Send 2, ReactQueued 0, ReactQueued 1]) 1
   \<and> queued (links (run [Send (1::nat), Send 2, ReactQueued 0]) ! 1) = Pending
   \<and> in_flight (turn (run [Send (1::nat), Send 2, ReactQueued 0]) False) 1
   \<and> started (turn (run [Send (1::nat), Send 2, ReactQueued 0]) False) = [1, 2]
   \<and> started (turns (run [Send (1::nat), Send 2, ReactQueued 0]) [False]) = [1, 2]"
proof -
  let ?e = "[Send (1::nat), Send 2, ReactQueued 0]"
  note t1 = send_chain_serialises [of "[Send (1::nat), Send 2, ReactQueued 0, ReactQueued 1]"]
  note t2 = send_chain_serialises [of ?e False "[False]"]
  from t1 chain_example(1)
  have a: "\<not> in_flight (run [Send (1::nat), Send 2, ReactQueued 0, ReactQueued 1]) 1"
    by (metis zero_neq_one)
  from t2 have "\<forall>i < length (links (run ?e)).
      queued (links (run ?e) ! i) \<noteq> Pending \<longleftrightarrow> i < length (started (run ?e))"
    by blast
  then have "1 < length (links (run ?e)) \<longrightarrow>
      queued (links (run ?e) ! 1) \<noteq> Pending \<longleftrightarrow> 1 < length (started (run ?e))"
    by (rule spec)
  then have b: "queued (links (run ?e) ! 1) = Pending"
    unfolding chain_example(2,4) by simp
  from t2 have "length (started (run ?e)) < length (sent ?e) \<longrightarrow>
         in_flight (turn (run ?e) False) (length (started (run ?e)))
       \<and> started (turn (run ?e) False) = started (run ?e) @ [sent ?e ! length (started (run ?e))]"
    by blast
  then have c: "in_flight (turn (run ?e) False) 1" "started (turn (run ?e) False) = [1, 2]"
    unfolding chain_example(2,3) by simp_all
  from t2 have "length [False] = length (sent ?e) - length (started (run ?e)) \<longrightarrow>
         started (turns (run ?e) [False]) = sent ?e"
    by blast
  then have d: "started (turns (run ?e) [False]) = [1, 2]"
    unfolding chain_example(2,3) by simp
  from a b c d show ?thesis
    by blast
qed

end
